theory Spec2Isabelle
  imports Complex_Main "HOL-Library.Char_ord" "HOL-Library.List_Lexorder"
begin

section \<open>Data model\<close>

text \<open>
  The records the dashboard aggregates. A JavaScript string is modelled as a
  \<^typ>\<open>string\<close> (a list of code units); an optional property (\<^verbatim>\<open>displayName?\<close>,
  a \<^verbatim>\<open>createdAt\<close> the store may leave out) is an \<^typ>\<open>string option\<close>, with
  \<^term>\<open>None\<close> for \<^verbatim>\<open>undefined\<close>.
\<close>

text \<open>\<^verbatim>\<open>interface GeneratedImage\<close> (Gallery) and the rows of \<^verbatim>\<open>blink.db.generatedImages\<close>.\<close>

record generatedImage =
  imgId :: string
  userId :: string
  url :: string
  prompt :: string
  imgSize :: string
  quality :: string
  createdAt :: string

text \<open>The rows of \<^verbatim>\<open>blink.db.users\<close>, as Analytics and UserManagement read them.\<close>

record dbUser =
  dbId :: string
  dbEmail :: string
  dbDisplayName :: "string option"
  dbRole :: "string option"
  dbCreatedAt :: "string option"

datatype userStatus = Active | Inactive | Banned

text \<open>\<^verbatim>\<open>interface User\<close> of UserManagement (the fields the page fills in).\<close>

record user =
  uId :: string
  email :: string
  displayName :: "string option"
  role :: string
  uCreatedAt :: string
  imageCount :: nat
  status :: userStatus

text \<open>One element of \<^verbatim>\<open>AnalyticsData.dailyStats\<close>.\<close>

record dailyStat =
  date :: string
  users :: nat
  images :: nat

section \<open>Strings\<close>

text \<open>\<^verbatim>\<open>s.startsWith(p)\<close>\<close>

definition startsWith :: "string \<Rightarrow> string \<Rightarrow> bool" where
  "startsWith s p = (take (length p) s = p)"

text \<open>\<^verbatim>\<open>s.includes(t)\<close>: \<open>t\<close> occurs in \<open>s\<close> as a contiguous run.\<close>

fun includesStr :: "string \<Rightarrow> string \<Rightarrow> bool" where
  "includesStr [] t = (t = [])"
| "includesStr (c # cs) t = (startsWith (c # cs) t \<or> includesStr cs t)"

text \<open>
  \<^verbatim>\<open>s.toLowerCase()\<close> on the ASCII letters; other code units are left as they are.
\<close>

definition lowerChar :: "char \<Rightarrow> char" where
  "lowerChar c =
     (if CHR ''A'' \<le> c \<and> c \<le> CHR ''Z'' then char_of (of_char c + (32::nat)) else c)"

definition toLowerCase :: "string \<Rightarrow> string" where
  "toLowerCase s = map lowerChar s"

text \<open>\<^verbatim>\<open>parts.join(sep)\<close>\<close>

fun join :: "string \<Rightarrow> string list \<Rightarrow> string" where
  "join sep [] = []"
| "join sep [x] = x"
| "join sep (x # y # ys) = x @ sep @ join sep (y # ys)"

text \<open>\<^verbatim>\<open>String(n)\<close> for a non-negative integer: its decimal digits.\<close>

definition digitChar :: "nat \<Rightarrow> char" where
  "digitChar d = ''0123456789'' ! d"

fun showNat :: "nat \<Rightarrow> string" where
  "showNat n = (if n < 10 then [digitChar n] else showNat (n div 10) @ [digitChar (n mod 10)])"

declare showNat.simps [simp del]

section \<open>Gallery and UserManagement: text filters\<close>

text \<open>
  \<^verbatim>\<open>
  const filteredImages = images.filter(image => {
    const matchesSearch = image.prompt.toLowerCase().includes(searchQuery.toLowerCase())
    const matchesSize = sizeFilter === 'all' || image.size === sizeFilter
    const matchesQuality = qualityFilter === 'all' || image.quality === qualityFilter
    return matchesSearch && matchesSize && matchesQuality
  })
  \<close>
\<close>

definition galleryFilteredImages ::
  "string \<Rightarrow> string \<Rightarrow> string \<Rightarrow> generatedImage list \<Rightarrow> generatedImage list" where
  "galleryFilteredImages searchQuery sizeFilter qualityFilter imgs =
     filter (\<lambda>image.
       let matchesSearch = includesStr (toLowerCase (prompt image)) (toLowerCase searchQuery);
           matchesSize = (sizeFilter = ''all'' \<or> imgSize image = sizeFilter);
           matchesQuality = (qualityFilter = ''all'' \<or> quality image = qualityFilter)
       in matchesSearch \<and> matchesSize \<and> matchesQuality) imgs"

text \<open>
  \<^verbatim>\<open>
  const filteredUsers = users.filter(user =>
    user.email.toLowerCase().includes(searchQuery.toLowerCase()) ||
    (user.displayName?.toLowerCase().includes(searchQuery.toLowerCase()))
  )
  \<close>
  An absent \<^verbatim>\<open>displayName\<close> makes the second disjunct \<^verbatim>\<open>undefined\<close>, which is falsy.
\<close>

definition filteredUsers :: "string \<Rightarrow> user list \<Rightarrow> user list" where
  "filteredUsers searchQuery usrs =
     filter (\<lambda>u.
       includesStr (toLowerCase (email u)) (toLowerCase searchQuery) \<or>
       (case displayName u of
          None \<Rightarrow> False
        | Some d \<Rightarrow> includesStr (toLowerCase d) (toLowerCase searchQuery))) usrs"

section \<open>Analytics: the figures derived from \<^verbatim>\<open>data.dailyStats\<close>\<close>

text \<open>
  A JavaScript number as far as the averages need it: a quotient of two counts is
  \<^verbatim>\<open>NaN\<close> (0/0), \<^verbatim>\<open>Infinity\<close> (n/0) or a finite value, kept exact here.
\<close>

datatype jsnum = JNaN | JInfinity | JNum rat

definition jsDivide :: "nat \<Rightarrow> nat \<Rightarrow> jsnum" where
  "jsDivide a b =
     (if b = 0 then (if a = 0 then JNaN else JInfinity) else JNum (of_nat a / of_nat b))"

text \<open>\<^verbatim>\<open>Math.round(x)\<close>: \<open>floor(x + 0.5)\<close> on a finite value, the argument itself otherwise.\<close>

fun mathRound :: "jsnum \<Rightarrow> jsnum" where
  "mathRound JNaN = JNaN"
| "mathRound JInfinity = JInfinity"
| "mathRound (JNum q) = JNum (of_int \<lfloor>q + 1 / 2\<rfloor>)"

text \<open>\<^verbatim>\<open>x || 0\<close> on a number: \<^verbatim>\<open>NaN\<close> and 0 are falsy.\<close>

definition orZero :: "jsnum \<Rightarrow> jsnum" where
  "orZero x = (if x = JNaN \<or> x = JNum 0 then JNum 0 else x)"

text \<open>
  \<^verbatim>\<open>
  Math.round(data.dailyStats.reduce((sum, stat) => sum + stat.images, 0)
             / data.dailyStats.length) || 0
  \<close>
\<close>

definition avgPerDay :: "dailyStat list \<Rightarrow> jsnum" where
  "avgPerDay stats =
     orZero (mathRound (jsDivide (foldl (\<lambda>sum stat. sum + images stat) 0 stats) (length stats)))"

text \<open>
  \<^verbatim>\<open>new Set(data.dailyStats.flatMap(stat => Array(stat.users).fill(0))).size\<close>
\<close>

definition activeUsers :: "dailyStat list \<Rightarrow> nat" where
  "activeUsers stats =
     length (remdups (concat (map (\<lambda>stat. replicate (users stat) (0::nat)) stats)))"

section \<open>Analytics: CSV export\<close>

text \<open>A field of a CSV row: \<^verbatim>\<open>join\<close> turns a number into its decimal digits.\<close>

datatype csvField = Str string | Num nat

fun fieldText :: "csvField \<Rightarrow> string" where
  "fieldText (Str s) = s"
| "fieldText (Num n) = showNat n"

text \<open>
  \<^verbatim>\<open>
  const csvContent = [
    ['Date', 'Users', 'Images'],
    ...data.dailyStats.map(stat => [stat.date, stat.users, stat.images])
  ].map(row => row.join(',')).join('\n')
  \<close>
\<close>

definition csvContent :: "dailyStat list \<Rightarrow> string" where
  "csvContent stats =
     join [CHR 0x0A]
       (map (\<lambda>row. join '','' (map fieldText row))
         ([Str ''Date'', Str ''Users'', Str ''Images'']
          # map (\<lambda>stat. [Str (date stat), Num (users stat), Num (images stat)]) stats))"

section \<open>Dates\<close>

text \<open>
  A \<^verbatim>\<open>Date\<close> holds a time value, the milliseconds since 1970-01-01T00:00:00Z, or is
  an Invalid Date (time value \<^verbatim>\<open>NaN\<close>): an \<^typ>\<open>int option\<close>, \<^term>\<open>None\<close> for the
  Invalid Date. The calendar functions follow ECMA-262 (Day, DayFromYear, YearFromTime,
  MonthFromTime, DateFromTime, TimeClip), all in UTC.
\<close>

definition msPerDay :: int where
  "msPerDay = 24 * 60 * 60 * 1000"

text \<open>TimeClip: a time value further than 8.64e15 ms from the epoch is \<^verbatim>\<open>NaN\<close>.\<close>

definition timeClip :: "int \<Rightarrow> int option" where
  "timeClip t = (if \<bar>t\<bar> \<le> 8640000000000000 then Some t else None)"

definition day :: "int \<Rightarrow> int" where
  "day t = t div msPerDay"

definition timeWithinDay :: "int \<Rightarrow> int" where
  "timeWithinDay t = t mod msPerDay"

definition daysInYear :: "int \<Rightarrow> int" where
  "daysInYear y =
     (if y mod 4 \<noteq> 0 then 365 else if y mod 100 \<noteq> 0 then 366
      else if y mod 400 \<noteq> 0 then 365 else 366)"

definition dayFromYear :: "int \<Rightarrow> int" where
  "dayFromYear y =
     365 * (y - 1970) + (y - 1969) div 4 - (y - 1901) div 100 + (y - 1601) div 400"

lemma div_succ:
  fixes x n :: int
  assumes "0 < n"
  shows "(x + 1) div n = x div n + (if (x + 1) mod n = 0 then 1 else 0)"
proof -
  define q where "q = x div n"
  define r where "r = x mod n"
  have x: "x = n * q + r" by (simp add: q_def r_def)
  have r: "0 \<le> r" "r < n" using assms by (simp_all add: r_def)
  show ?thesis
  proof (cases "r + 1 = n")
    case True
    then have eq: "x + 1 = n * (q + 1) + 0" using x by (simp add: algebra_simps)
    have "(x + 1) div n = q + 1"
      by (rule int_div_pos_eq [OF eq]) (use assms in simp_all)
    moreover have "(x + 1) mod n = 0"
      by (rule int_mod_pos_eq [OF eq]) (use assms in simp_all)
    ultimately show ?thesis by (simp add: q_def)
  next
    case False
    then have lt: "r + 1 < n" using r by simp
    have eq: "x + 1 = n * q + (r + 1)" using x by simp
    have "(x + 1) div n = q"
      by (rule int_div_pos_eq [OF eq]) (use r lt in simp_all)
    moreover have "(x + 1) mod n = r + 1"
      by (rule int_mod_pos_eq [OF eq]) (use r lt in simp_all)
    ultimately show ?thesis using r by (simp add: q_def)
  qed
qed

lemma shift_mod: "(y - k * n) mod n = y mod n" for y k n :: int
  using mod_mult_self1 [of y "- k" n] by simp

lemma dayFromYear_step: "dayFromYear (y + 1) = dayFromYear y + daysInYear y"
proof -
  have m4: "(y - 1969 + 1) mod 4 = y mod 4" using shift_mod [of y 492 4] by simp
  have m100: "(y - 1901 + 1) mod 100 = y mod 100" using shift_mod [of y 19 100] by simp
  have m400: "(y - 1601 + 1) mod 400 = y mod 400" using shift_mod [of y 4 400] by simp
  have d4: "(y + 1 - 1969) div 4 = (y - 1969) div 4 + (if y mod 4 = 0 then 1 else 0)"
    using div_succ [of 4 "y - 1969"] m4 by (simp add: algebra_simps)
  have d100: "(y + 1 - 1901) div 100 = (y - 1901) div 100 + (if y mod 100 = 0 then 1 else 0)"
    using div_succ [of 100 "y - 1901"] m100 by (simp add: algebra_simps)
  have d400: "(y + 1 - 1601) div 400 = (y - 1601) div 400 + (if y mod 400 = 0 then 1 else 0)"
    using div_succ [of 400 "y - 1601"] m400 by (simp add: algebra_simps)
  have a: "y mod 100 = 0 \<Longrightarrow> y mod 4 = 0"
    using mod_mod_cancel [of 4 100 y] by simp
  have b: "y mod 400 = 0 \<Longrightarrow> y mod 100 = 0"
    using mod_mod_cancel [of 100 400 y] by simp
  show ?thesis
    unfolding dayFromYear_def daysInYear_def d4 d100 d400 using a b by auto
qed

lemma daysInYear_ge: "365 \<le> daysInYear y"
  by (simp add: daysInYear_def)

lemma daysInYear_le: "daysInYear y \<le> 366"
  by (simp add: daysInYear_def)

text \<open>
  YearFromTime is the largest year whose first day is not after the given day. The
  search starts from a year that is not too late (a year has at most 366 days, and at
  least 365) and walks forward.
\<close>

function yearFrom :: "int \<Rightarrow> int \<Rightarrow> int" where
  "yearFrom y d = (if dayFromYear (y + 1) \<le> d then yearFrom (y + 1) d else y)"
  by pat_completeness auto
termination
proof (relation "measure (\<lambda>(y, d). nat (d - dayFromYear (y + 1) + 1))")
  show "wf (measure (\<lambda>(y, d). nat (d - dayFromYear (y + 1) + 1)))" by simp
next
  fix y d :: int
  assume le: "dayFromYear (y + 1) \<le> d"
  have "dayFromYear (y + 1 + 1) = dayFromYear (y + 1) + daysInYear (y + 1)"
    by (rule dayFromYear_step)
  with daysInYear_ge [of "y + 1"] le
  have "nat (d - dayFromYear (y + 1 + 1) + 1) < nat (d - dayFromYear (y + 1) + 1)"
    by linarith
  then show "((y + 1, d), (y, d)) \<in> measure (\<lambda>(y, d). nat (d - dayFromYear (y + 1) + 1))"
    by (simp only: in_measure split_conv)
qed

declare yearFrom.simps [simp del]

definition yearFromDay :: "int \<Rightarrow> int" where
  "yearFromDay d = yearFrom (1970 + (if 0 \<le> d then d div 366 else d div 365)) d"

definition inLeapYear :: "int \<Rightarrow> bool" where
  "inLeapYear y = (daysInYear y = 366)"

definition monthLengths :: "int \<Rightarrow> nat list" where
  "monthLengths y = [31, if inLeapYear y then 29 else 28, 31, 30, 31, 30, 31, 31, 30, 31, 30, 31]"

text \<open>
  MonthFromTime and DateFromTime together: the day within the year is walked through the
  month lengths; the result is the month (0 for January) and the day in it (0 for the
  first).
\<close>

fun monthDate :: "nat \<Rightarrow> nat list \<Rightarrow> nat \<times> nat" where
  "monthDate d [] = (0, d)"
| "monthDate d (l # ls) =
     (if d < l then (0, d) else (case monthDate (d - l) ls of (m, r) \<Rightarrow> (Suc m, r)))"

definition civil :: "int \<Rightarrow> int \<times> nat \<times> nat" where
  "civil d =
     (let y = yearFromDay d;
          (m, r) = monthDate (nat (d - dayFromYear y)) (monthLengths y)
      in (y, m, r))"

text \<open>A number in a fixed count of decimal digits, zero-padded on the left.\<close>

fun fixedDigits :: "nat \<Rightarrow> nat \<Rightarrow> string" where
  "fixedDigits 0 k = []"
| "fixedDigits (Suc w) k = fixedDigits w (k div 10) @ [digitChar (k mod 10)]"

text \<open>
  The year of the ISO format: four digits from 0 to 9999, otherwise a sign and six digits.
\<close>

definition yearText :: "int \<Rightarrow> string" where
  "yearText y =
     (if 0 \<le> y \<and> y \<le> 9999 then fixedDigits 4 (nat y)
      else (if y < 0 then ''-'' else ''+'') @ fixedDigits 6 (nat \<bar>y\<bar>))"

definition dateText :: "int \<Rightarrow> string" where
  "dateText d =
     (case civil d of (y, m, r) \<Rightarrow>
        yearText y @ ''-'' @ fixedDigits 2 (Suc m) @ ''-'' @ fixedDigits 2 (Suc r))"

definition clockText :: "int \<Rightarrow> string" where
  "clockText ms =
     fixedDigits 2 (nat (ms div 3600000)) @ '':'' @
     fixedDigits 2 (nat (ms div 60000 mod 60)) @ '':'' @
     fixedDigits 2 (nat (ms div 1000 mod 60)) @ ''.'' @
     fixedDigits 3 (nat (ms mod 1000))"

datatype error = RangeError

text \<open>
  \<^verbatim>\<open>date.toISOString()\<close>: \<^verbatim>\<open>YYYY-MM-DDTHH:mm:ss.sssZ\<close>; on an Invalid Date it throws
  a RangeError.
\<close>

fun toISOString :: "int option \<Rightarrow> error + string" where
  "toISOString None = Inl RangeError"
| "toISOString (Some t) = Inr (dateText (day t) @ ''T'' @ clockText (timeWithinDay t) @ ''Z'')"

text \<open>
  \<^verbatim>\<open>new Date(s)\<close> for a string: the host's \<^verbatim>\<open>Date.parse\<close>, then TimeClip. What
  \<^verbatim>\<open>Date.parse\<close> accepts beyond the ISO format is left to the host by ECMA-262, so the
  parser is a parameter of the model: \<^term>\<open>None\<close> is its \<^verbatim>\<open>NaN\<close>.
\<close>

type_synonym dateParser = "string \<Rightarrow> int option"

definition newDate :: "dateParser \<Rightarrow> string \<Rightarrow> int option" where
  "newDate parse s = (case parse s of None \<Rightarrow> None | Some t \<Rightarrow> timeClip t)"

text \<open>\<^verbatim>\<open>a >= b\<close> on two dates: their time values are compared, and \<^verbatim>\<open>NaN\<close> compares false.\<close>

fun dateGe :: "int option \<Rightarrow> int option \<Rightarrow> bool" where
  "dateGe (Some a) (Some b) = (b \<le> a)"
| "dateGe _ _ = False"

text \<open>
  A parser for the ISO forms \<^verbatim>\<open>YYYY-MM-DD\<close>, \<^verbatim>\<open>YYYY-MM-DDTHH:mm:ssZ\<close> and
  \<^verbatim>\<open>YYYY-MM-DDTHH:mm:ss.sssZ\<close>, which every host reads the same way; it rejects
  everything else. It stands for the host's parser where a concrete one is needed; the
  general statements below hold for any parser.
\<close>

definition digitVal :: "char \<Rightarrow> nat option" where
  "digitVal c =
     (if CHR ''0'' \<le> c \<and> c \<le> CHR ''9'' then Some (of_char c - of_char CHR ''0'') else None)"

fun digitsVal :: "string \<Rightarrow> nat \<Rightarrow> nat option" where
  "digitsVal [] acc = Some acc"
| "digitsVal (c # cs) acc =
     (case digitVal c of None \<Rightarrow> None | Some v \<Rightarrow> digitsVal cs (10 * acc + v))"

definition number :: "string \<Rightarrow> nat option" where
  "number s = (if s = [] then None else digitsVal s 0)"

definition isoDay :: "string \<Rightarrow> int option" where
  "isoDay s =
     (if length s = 10 \<and> s ! 4 = CHR ''-'' \<and> s ! 7 = CHR ''-'' then
        (case (number (take 4 s), number (take 2 (drop 5 s)), number (drop 8 s)) of
           (Some y, Some m, Some d) \<Rightarrow>
             if 1 \<le> m \<and> m \<le> 12 \<and> 1 \<le> d \<and> d \<le> monthLengths (int y) ! (m - 1)
             then Some (dayFromYear (int y)
                        + int (sum_list (take (m - 1) (monthLengths (int y)))) + int d - 1)
             else None
         | _ \<Rightarrow> None)
      else None)"

definition isoClock :: "string \<Rightarrow> int option" where
  "isoClock s =
     (if (length s = 8 \<or> length s = 12 \<and> s ! 8 = CHR ''.'')
         \<and> s ! 2 = CHR '':'' \<and> s ! 5 = CHR '':'' then
        (case (number (take 2 s), number (take 2 (drop 3 s)), number (take 2 (drop 6 s)),
               if length s = 8 then Some 0 else number (drop 9 s)) of
           (Some h, Some m, Some sec, Some ms) \<Rightarrow>
             if h < 24 \<and> m < 60 \<and> sec < 60
             then Some (int h * 3600000 + int m * 60000 + int sec * 1000 + int ms)
             else None
         | _ \<Rightarrow> None)
      else None)"

definition isoParse :: dateParser where
  "isoParse s =
     (if length s = 10 then map_option (\<lambda>d. d * msPerDay) (isoDay s)
      else if (length s = 20 \<or> length s = 24) \<and> s ! 10 = CHR ''T'' \<and> last s = CHR ''Z'' then
        (case (isoDay (take 10 s), isoClock (butlast (drop 11 s))) of
           (Some d, Some c) \<Rightarrow> Some (d * msPerDay + c)
         | _ \<Rightarrow> None)
      else None)"

section \<open>Plain objects used as dictionaries, and \<^verbatim>\<open>Array.prototype.sort\<close>\<close>

text \<open>
  \<^verbatim>\<open>{} as Record<string, number>\<close>: the own properties of the object in the order of
  their creation. Reading and writing follow \<^verbatim>\<open>acc[k] = (acc[k] || 0) + 1\<close>: an
  existing property keeps its place, a new one is added last.
\<close>

type_synonym counts = "(string \<times> nat) list"

definition setProperty :: "counts \<Rightarrow> string \<Rightarrow> nat \<Rightarrow> counts" where
  "setProperty acc k v =
     (if k \<in> set (map fst acc) then map (\<lambda>(k', v'). if k' = k then (k', v) else (k', v')) acc
      else acc @ [(k, v)])"

definition increment :: "counts \<Rightarrow> string \<Rightarrow> counts" where
  "increment acc k = setProperty acc k ((case map_of acc k of None \<Rightarrow> 0 | Some n \<Rightarrow> n) + 1)"

text \<open>
  The names \<^verbatim>\<open>{}\<close> inherits from \<^verbatim>\<open>Object.prototype\<close>. For such a name \<^verbatim>\<open>acc[k]\<close> is
  not \<^verbatim>\<open>undefined\<close> before the first write, so what is kept under it is not a count;
  \<^const>\<open>increment\<close> does not describe that case.
\<close>

definition objectPrototypeKeys :: "string list" where
  "objectPrototypeKeys =
     [''constructor'', ''hasOwnProperty'', ''isPrototypeOf'', ''propertyIsEnumerable'',
      ''toLocaleString'', ''toString'', ''valueOf'', ''__proto__'',
      ''__defineGetter__'', ''__defineSetter__'', ''__lookupGetter__'', ''__lookupSetter__'']"

text \<open>
  An array index is the canonical decimal form of an integer from 0 to 2^32 - 2.
  \<^verbatim>\<open>Object.entries\<close> lists the array-index keys first, in ascending numeric order, and
  then the other string keys in the order of their creation.
\<close>

definition isArrayIndex :: "string \<Rightarrow> bool" where
  "isArrayIndex k =
     (case number k of None \<Rightarrow> False | Some n \<Rightarrow> showNat n = k \<and> int n < 2 ^ 32 - 1)"

definition indexOf :: "string \<Rightarrow> nat" where
  "indexOf k = (case number k of None \<Rightarrow> 0 | Some n \<Rightarrow> n)"

definition objectEntries :: "counts \<Rightarrow> (string \<times> nat) list" where
  "objectEntries obj =
     sort_key (\<lambda>(k, v). indexOf k) (filter (\<lambda>(k, v). isArrayIndex k) obj)
     @ filter (\<lambda>(k, v). \<not> isArrayIndex k) obj"

text \<open>
  \<^verbatim>\<open>xs.sort(cmp)\<close> is stable: an element goes before the first element of the sorted
  rest that it does not follow (\<open>cmp x y \<le> 0\<close>), so equal elements keep their order.
\<close>

fun insertBy :: "('a \<Rightarrow> 'a \<Rightarrow> int) \<Rightarrow> 'a \<Rightarrow> 'a list \<Rightarrow> 'a list" where
  "insertBy cmp x [] = [x]"
| "insertBy cmp x (y # ys) = (if cmp x y \<le> 0 then x # y # ys else y # insertBy cmp x ys)"

definition arraySort :: "('a \<Rightarrow> 'a \<Rightarrow> int) \<Rightarrow> 'a list \<Rightarrow> 'a list" where
  "arraySort cmp xs = foldr (insertBy cmp) xs []"

text \<open>
  \<^verbatim>\<open>a.localeCompare(b)\<close> on the month keys: they are made of digits, a sign and a hyphen
  at fixed places, on which the collation is the order of the code units.
\<close>

definition localeCompare :: "string \<Rightarrow> string \<Rightarrow> int" where
  "localeCompare a b = (if a < b then - 1 else if a = b then 0 else 1)"

text \<open>\<^verbatim>\<open>xs.slice(-n)\<close>: the last \<open>n\<close> elements.\<close>

definition sliceLast :: "nat \<Rightarrow> 'a list \<Rightarrow> 'a list" where
  "sliceLast n xs = drop (length xs - n) xs"

section \<open>Analytics: \<^verbatim>\<open>loadAnalytics\<close>\<close>

record promptCount =
  topPrompt :: string
  count :: nat

record growth =
  month :: string
  growthUsers :: nat

record analyticsData =
  totalUsers :: nat
  totalImages :: nat
  dataDailyStats :: "dailyStat list"
  dataTopPrompts :: "promptCount list"
  dataUserGrowth :: "growth list"

text \<open>
  The clock is read once per load: every \<^verbatim>\<open>new Date()\<close> of one run of
  \<^verbatim>\<open>loadAnalytics\<close> is taken to give the same time value \<open>now\<close>.

  \<^verbatim>\<open>const daysBack = timeRange === '7d' ? 7 : timeRange === '30d' ? 30 : 90\<close>
\<close>

definition daysBackOf :: "string \<Rightarrow> nat" where
  "daysBackOf timeRange = (if timeRange = ''7d'' then 7 else if timeRange = ''30d'' then 30 else 90)"

text \<open>\<^verbatim>\<open>const startDate = new Date(now.getTime() - daysBack * 24 * 60 * 60 * 1000)\<close>\<close>

definition startDate :: "int \<Rightarrow> nat \<Rightarrow> int option" where
  "startDate now daysBack = timeClip (now - int daysBack * msPerDay)"

text \<open>
  \<^verbatim>\<open>const filteredImages = images.filter(img => new Date(img.createdAt) >= startDate)\<close>
\<close>

definition filteredImages ::
  "dateParser \<Rightarrow> int \<Rightarrow> nat \<Rightarrow> generatedImage list \<Rightarrow> generatedImage list" where
  "filteredImages parse now daysBack imgs =
     filter (\<lambda>img. dateGe (newDate parse (createdAt img)) (startDate now daysBack)) imgs"

text \<open>
  \<^verbatim>\<open>
  const dailyStats = []
  for (let i = daysBack - 1; i >= 0; i--) {
    const date = new Date(now.getTime() - i * 24 * 60 * 60 * 1000)
    const dateStr = date.toISOString().split('T')[0]
    const dayImages = filteredImages.filter(img => img.createdAt.startsWith(dateStr))
    const dayUsers = new Set(dayImages.map(img => img.userId)).size
    dailyStats.push({ date: dateStr, users: dayUsers, images: dayImages.length })
  }
  \<close>
  The counter of \<open>dailyStatsLoop\<close> is the number of rounds left: \<open>Suc i\<close> is the round
  with loop variable \<open>i\<close>. \<^verbatim>\<open>split('T')[0]\<close> is the text before the first \<^verbatim>\<open>T\<close>.
\<close>

definition dayStat :: "generatedImage list \<Rightarrow> string \<Rightarrow> dailyStat" where
  "dayStat fimgs dateStr =
     (let dayImages = filter (\<lambda>img. startsWith (createdAt img) dateStr) fimgs;
          dayUsers = length (remdups (map userId dayImages))
      in \<lparr>date = dateStr, users = dayUsers, images = length dayImages\<rparr>)"

fun dailyStatsLoop ::
  "int \<Rightarrow> generatedImage list \<Rightarrow> nat \<Rightarrow> dailyStat list \<Rightarrow> error + dailyStat list" where
  "dailyStatsLoop now fimgs 0 acc = Inr acc"
| "dailyStatsLoop now fimgs (Suc i) acc =
     (case toISOString (timeClip (now - int i * msPerDay)) of
        Inl e \<Rightarrow> Inl e
      | Inr isoText \<Rightarrow>
          dailyStatsLoop now fimgs i
            (acc @ [dayStat fimgs (takeWhile (\<lambda>c. c \<noteq> CHR ''T'') isoText)]))"

definition dailyStats :: "int \<Rightarrow> nat \<Rightarrow> generatedImage list \<Rightarrow> error + dailyStat list" where
  "dailyStats now daysBack fimgs = dailyStatsLoop now fimgs daysBack []"

text \<open>
  \<^verbatim>\<open>
  const promptCounts = filteredImages.reduce((acc, img) => {
    const prompt = img.prompt.slice(0, 50) + (img.prompt.length > 50 ? '...' : '')
    acc[prompt] = (acc[prompt] || 0) + 1
    return acc
  }, {} as Record<string, number>)
  \<close>
\<close>

definition promptKey :: "generatedImage \<Rightarrow> string" where
  "promptKey img = take 50 (prompt img) @ (if length (prompt img) > 50 then ''...'' else [])"

definition promptCounts :: "generatedImage list \<Rightarrow> counts" where
  "promptCounts fimgs = foldl (\<lambda>acc img. increment acc (promptKey img)) [] fimgs"

text \<open>
  \<^verbatim>\<open>
  const topPrompts = Object.entries(promptCounts)
    .sort(([, a], [, b]) => b - a)
    .slice(0, 10)
    .map(([prompt, count]) => ({ prompt, count }))
  \<close>
\<close>

definition topPrompts :: "generatedImage list \<Rightarrow> promptCount list" where
  "topPrompts fimgs =
     map (\<lambda>(p, c). \<lparr>topPrompt = p, count = c\<rparr>)
       (take 10
         (arraySort (\<lambda>(_, a) (_, b). int b - int a) (objectEntries (promptCounts fimgs))))"

text \<open>
  \<^verbatim>\<open>
  const monthlyUsers = users.reduce((acc, user) => {
    const month = new Date(user.createdAt || new Date()).toISOString().slice(0, 7)
    acc[month] = (acc[month] || 0) + 1
    return acc
  }, {} as Record<string, number>)
  \<close>
  A \<^verbatim>\<open>createdAt\<close> that is missing or the empty string is falsy and replaced by the
  clock. \<^verbatim>\<open>toISOString\<close> throws on an Invalid Date, which ends the reduction.
\<close>

definition userDate :: "dateParser \<Rightarrow> int \<Rightarrow> dbUser \<Rightarrow> int option" where
  "userDate parse now u =
     (case dbCreatedAt u of
        None \<Rightarrow> timeClip now
      | Some s \<Rightarrow> if s = [] then timeClip now else newDate parse s)"

definition userMonth :: "dateParser \<Rightarrow> int \<Rightarrow> dbUser \<Rightarrow> error + string" where
  "userMonth parse now u =
     (case toISOString (userDate parse now u) of Inl e \<Rightarrow> Inl e | Inr text \<Rightarrow> Inr (take 7 text))"

fun monthlyUsersFrom :: "dateParser \<Rightarrow> int \<Rightarrow> counts \<Rightarrow> dbUser list \<Rightarrow> error + counts" where
  "monthlyUsersFrom parse now acc [] = Inr acc"
| "monthlyUsersFrom parse now acc (u # us) =
     (case userMonth parse now u of
        Inl e \<Rightarrow> Inl e
      | Inr m \<Rightarrow> monthlyUsersFrom parse now (increment acc m) us)"

definition monthlyUsers :: "dateParser \<Rightarrow> int \<Rightarrow> dbUser list \<Rightarrow> error + counts" where
  "monthlyUsers parse now usrs = monthlyUsersFrom parse now [] usrs"

text \<open>
  \<^verbatim>\<open>
  const userGrowth = Object.entries(monthlyUsers)
    .sort(([a], [b]) => a.localeCompare(b))
    .slice(-6)
    .map(([month, users]) => ({
      month: new Date(month + '-01').toLocaleDateString('en-US', { month: 'short', year: 'numeric' }),
      users
    }))
  \<close>
  The label of a month depends on the host's time zone and locale data; it is the
  parameter \<open>label\<close>. \<open>growthEntries\<close> is the list before the labels are put on.
\<close>

definition growthEntries :: "counts \<Rightarrow> (string \<times> nat) list" where
  "growthEntries mu =
     sliceLast 6 (arraySort (\<lambda>(a, _) (b, _). localeCompare a b) (objectEntries mu))"

definition userGrowth :: "(string \<Rightarrow> string) \<Rightarrow> counts \<Rightarrow> growth list" where
  "userGrowth label mu =
     map (\<lambda>(m, n). \<lparr>month = label m, growthUsers = n\<rparr>) (growthEntries mu)"

text \<open>
  The body of the \<^verbatim>\<open>try\<close> block: \<^term>\<open>Inr\<close> is the value handed to \<^verbatim>\<open>setData\<close>,
  \<^term>\<open>Inl\<close> an exception, which the \<^verbatim>\<open>catch\<close> logs; \<^verbatim>\<open>setData\<close> is then not called.
\<close>

definition loadAnalytics ::
  "dateParser \<Rightarrow> (string \<Rightarrow> string) \<Rightarrow> int \<Rightarrow> string \<Rightarrow> dbUser list \<Rightarrow> generatedImage list
   \<Rightarrow> error + analyticsData" where
  "loadAnalytics parse label now timeRange usrs imgs =
     (let daysBack = daysBackOf timeRange;
          fimgs = filteredImages parse now daysBack imgs
      in case dailyStats now daysBack fimgs of
           Inl e \<Rightarrow> Inl e
         | Inr ds \<Rightarrow>
             (case monthlyUsers parse now usrs of
                Inl e \<Rightarrow> Inl e
              | Inr mu \<Rightarrow>
                  Inr \<lparr>totalUsers = length usrs, totalImages = length imgs,
                       dataDailyStats = ds, dataTopPrompts = topPrompts fimgs,
                       dataUserGrowth = userGrowth label mu\<rparr>))"

text \<open>
  UserManagement:
  \<^verbatim>\<open>
  const imageCounts = images.reduce((acc, img) => {
    acc[img.userId] = (acc[img.userId] || 0) + 1
    return acc
  }, {} as Record<string, number>)
  \<close>
\<close>

definition imageCounts :: "generatedImage list \<Rightarrow> counts" where
  "imageCounts imgs = foldl (\<lambda>acc img. increment acc (userId img)) [] imgs"

text \<open>
  AdminDashboard counts its active users over the last seven days:
  \<^verbatim>\<open>
  const lastWeek = new Date(now.getTime() - 7 * 24 * 60 * 60 * 1000)
  const activeUserIds = new Set(
    images.filter(img => new Date(img.createdAt) >= lastWeek).map(img => img.userId))
  \<close>
  and shows \<^verbatim>\<open>activeUserIds.size\<close>.
\<close>

definition dashboardActiveUsers :: "dateParser \<Rightarrow> int \<Rightarrow> generatedImage list \<Rightarrow> nat" where
  "dashboardActiveUsers parse now imgs =
     (let lastWeek = timeClip (now - 7 * msPerDay)
      in length (remdups (map userId
           (filter (\<lambda>img. dateGe (newDate parse (createdAt img)) lastWeek) imgs))))"

section \<open>Notions of the specification\<close>

text \<open>
  The place at which a key is first encountered in a list (the length of the list when
  it does not occur): the specification's first-encountered order compares these places.
\<close>

definition firstEncounter :: "'a list \<Rightarrow> 'a \<Rightarrow> nat" where
  "firstEncounter ks k = length (takeWhile (\<lambda>x. x \<noteq> k) ks)"

text \<open>
  The order in which \<^verbatim>\<open>Object.entries\<close> lists the keys of a dictionary that was filled
  from the key list \<open>ks\<close>: array indices first, by their number, then the other keys as
  first encountered.
\<close>

definition entriesOrder :: "string list \<Rightarrow> string \<Rightarrow> string \<Rightarrow> bool" where
  "entriesOrder ks a b =
     (if isArrayIndex a then (if isArrayIndex b then indexOf a < indexOf b else True)
      else (if isArrayIndex b then False else firstEncounter ks a < firstEncounter ks b))"



section \<open>The arrays and objects of a load, in a store\<close>

text \<open>
  To say what a computation does to the arrays it is given, the arrays and the
  dictionary objects live in a store: a reference is a position in the list of cells.
  \<^verbatim>\<open>filter\<close>, \<^verbatim>\<open>map\<close>, \<^verbatim>\<open>slice\<close>, \<^verbatim>\<open>Object.entries\<close> and the literals \<^verbatim>\<open>[]\<close> and
  \<^verbatim>\<open>{}\<close> make a new cell and leave the others alone; \<^verbatim>\<open>push\<close>, \<^verbatim>\<open>sort\<close> and the
  assignment \<^verbatim>\<open>acc[k] = v\<close> change the cell they are applied to, in place.
\<close>

datatype cell =
    ImageArray "generatedImage list"
  | UserArray "dbUser list"
  | StatArray "dailyStat list"
  | TextArray "string list"
  | EntryArray "(string \<times> nat) list"
  | PromptArray "promptCount list"
  | GrowthArray "growth list"
  | CountObject counts

type_synonym store = "cell list"

definition alloc :: "store \<Rightarrow> cell \<Rightarrow> nat \<times> store" where
  "alloc h c = (length h, h @ [c])"

definition imagesAt :: "store \<Rightarrow> nat \<Rightarrow> generatedImage list" where
  "imagesAt h a = (case h ! a of ImageArray xs \<Rightarrow> xs | _ \<Rightarrow> [])"

definition usersAt :: "store \<Rightarrow> nat \<Rightarrow> dbUser list" where
  "usersAt h a = (case h ! a of UserArray xs \<Rightarrow> xs | _ \<Rightarrow> [])"

definition statsAt :: "store \<Rightarrow> nat \<Rightarrow> dailyStat list" where
  "statsAt h a = (case h ! a of StatArray xs \<Rightarrow> xs | _ \<Rightarrow> [])"

definition textsAt :: "store \<Rightarrow> nat \<Rightarrow> string list" where
  "textsAt h a = (case h ! a of TextArray xs \<Rightarrow> xs | _ \<Rightarrow> [])"

definition entriesAt :: "store \<Rightarrow> nat \<Rightarrow> (string \<times> nat) list" where
  "entriesAt h a = (case h ! a of EntryArray xs \<Rightarrow> xs | _ \<Rightarrow> [])"

definition promptsAt :: "store \<Rightarrow> nat \<Rightarrow> promptCount list" where
  "promptsAt h a = (case h ! a of PromptArray xs \<Rightarrow> xs | _ \<Rightarrow> [])"

definition growthAt :: "store \<Rightarrow> nat \<Rightarrow> growth list" where
  "growthAt h a = (case h ! a of GrowthArray xs \<Rightarrow> xs | _ \<Rightarrow> [])"

definition countsAt :: "store \<Rightarrow> nat \<Rightarrow> counts" where
  "countsAt h a = (case h ! a of CountObject cs \<Rightarrow> cs | _ \<Rightarrow> [])"

text \<open>\<^verbatim>\<open>images.filter(p)\<close>: a new array.\<close>

definition filterImages :: "(generatedImage \<Rightarrow> bool) \<Rightarrow> nat \<Rightarrow> store \<Rightarrow> nat \<times> store" where
  "filterImages p a h = alloc h (ImageArray (filter p (imagesAt h a)))"

text \<open>\<^verbatim>\<open>dailyStats.push(stat)\<close>: the array itself grows.\<close>

definition pushStat :: "nat \<Rightarrow> dailyStat \<Rightarrow> store \<Rightarrow> store" where
  "pushStat a stat h = h[a := StatArray (statsAt h a @ [stat])]"

text \<open>\<^verbatim>\<open>acc[k] = (acc[k] || 0) + 1\<close>: the object itself changes.\<close>

definition incrementAt :: "nat \<Rightarrow> string \<Rightarrow> store \<Rightarrow> store" where
  "incrementAt a k h = h[a := CountObject (increment (countsAt h a) k)]"

text \<open>\<^verbatim>\<open>entries.sort(cmp)\<close>: the array is sorted in place.\<close>

definition sortEntries ::
  "((string \<times> nat) \<Rightarrow> (string \<times> nat) \<Rightarrow> int) \<Rightarrow> nat \<Rightarrow> store \<Rightarrow> store" where
  "sortEntries cmp a h = h[a := EntryArray (arraySort cmp (entriesAt h a))]"

text \<open>
  The loop of the daily statistics. In each round \<^verbatim>\<open>filter\<close> and \<^verbatim>\<open>map\<close> make the
  arrays \<^verbatim>\<open>dayImages\<close> and \<^verbatim>\<open>dayImages.map(img => img.userId)\<close>, and \<^verbatim>\<open>push\<close> extends
  \<^verbatim>\<open>dailyStats\<close>. An exception leaves the store as it is at that moment.
\<close>

fun dailyStatsRounds :: "int \<Rightarrow> nat \<Rightarrow> nat \<Rightarrow> nat \<Rightarrow> store \<Rightarrow> error option \<times> store" where
  "dailyStatsRounds now fimgs stats 0 h = (None, h)"
| "dailyStatsRounds now fimgs stats (Suc i) h =
     (case toISOString (timeClip (now - int i * msPerDay)) of
        Inl e \<Rightarrow> (Some e, h)
      | Inr isoText \<Rightarrow>
          (let dateStr = takeWhile (\<lambda>c. c \<noteq> CHR ''T'') isoText;
               (dayImages, h1) = filterImages (\<lambda>img. startsWith (createdAt img) dateStr) fimgs h;
               (ids, h2) = alloc h1 (TextArray (map userId (imagesAt h1 dayImages)));
               dayUsers = length (remdups (textsAt h2 ids));
               h3 = pushStat stats
                      \<lparr>date = dateStr, users = dayUsers,
                       images = length (imagesAt h2 dayImages)\<rparr> h2
           in dailyStatsRounds now fimgs stats i h3))"

text \<open>\<^verbatim>\<open>const dailyStats = []\<close> and the loop; the result is the reference of the array.\<close>

definition dailyStatsOn :: "int \<Rightarrow> nat \<Rightarrow> nat \<Rightarrow> store \<Rightarrow> (error + nat) \<times> store" where
  "dailyStatsOn now daysBack fimgs h =
     (let (stats, h1) = alloc h (StatArray []);
          (thrown, h2) = dailyStatsRounds now fimgs stats daysBack h1
      in (case thrown of Some e \<Rightarrow> Inl e | None \<Rightarrow> Inr stats, h2))"

text \<open>
  \<^verbatim>\<open>filteredImages.reduce((acc, img) => { ...; return acc }, {})\<close>: the object \<^verbatim>\<open>{}\<close> is
  new, and every round writes into it.
\<close>

definition promptCountsOn :: "nat \<Rightarrow> store \<Rightarrow> nat \<times> store" where
  "promptCountsOn fimgs h =
     (let (acc, h1) = alloc h (CountObject [])
      in (acc, foldl (\<lambda>s img. incrementAt acc (promptKey img) s) h1 (imagesAt h1 fimgs)))"

text \<open>
  \<^verbatim>\<open>Object.entries(promptCounts).sort(...).slice(0, 10).map(...)\<close>: \<^verbatim>\<open>sort\<close> works on
  the array that \<^verbatim>\<open>Object.entries\<close> has just made.
\<close>

definition topPromptsOn :: "nat \<Rightarrow> store \<Rightarrow> nat \<times> store" where
  "topPromptsOn pc h =
     (let (entries, h1) = alloc h (EntryArray (objectEntries (countsAt h pc)));
          h2 = sortEntries (\<lambda>(_, a) (_, b). int b - int a) entries h1;
          (top, h3) = alloc h2 (EntryArray (take 10 (entriesAt h2 entries)))
      in alloc h3 (PromptArray (map (\<lambda>(p, c). \<lparr>topPrompt = p, count = c\<rparr>) (entriesAt h3 top))))"

text \<open>The reduction over the users, writing into the object \<open>acc\<close>.\<close>

fun monthlyUsersRounds ::
  "dateParser \<Rightarrow> int \<Rightarrow> nat \<Rightarrow> dbUser list \<Rightarrow> store \<Rightarrow> error option \<times> store" where
  "monthlyUsersRounds parse now acc [] h = (None, h)"
| "monthlyUsersRounds parse now acc (u # us) h =
     (case userMonth parse now u of
        Inl e \<Rightarrow> (Some e, h)
      | Inr m \<Rightarrow> monthlyUsersRounds parse now acc us (incrementAt acc m h))"

definition monthlyUsersOn :: "dateParser \<Rightarrow> int \<Rightarrow> nat \<Rightarrow> store \<Rightarrow> (error + nat) \<times> store" where
  "monthlyUsersOn parse now usersRef h =
     (let (acc, h1) = alloc h (CountObject []);
          (thrown, h2) = monthlyUsersRounds parse now acc (usersAt h1 usersRef) h1
      in (case thrown of Some e \<Rightarrow> Inl e | None \<Rightarrow> Inr acc, h2))"

definition userGrowthOn :: "(string \<Rightarrow> string) \<Rightarrow> nat \<Rightarrow> store \<Rightarrow> nat \<times> store" where
  "userGrowthOn label mu h =
     (let (months, h1) = alloc h (EntryArray (objectEntries (countsAt h mu)));
          h2 = sortEntries (\<lambda>(a, _) (b, _). localeCompare a b) months h1;
          (last6, h3) = alloc h2 (EntryArray (sliceLast 6 (entriesAt h2 months)))
      in alloc h3 (GrowthArray (map (\<lambda>(m, n). \<lparr>month = label m, growthUsers = n\<rparr>)
                                     (entriesAt h3 last6))))"

text \<open>
  The \<^verbatim>\<open>try\<close> block of \<^verbatim>\<open>loadAnalytics\<close> on a store that holds the array of users at
  \<open>usersRef\<close> and the array of images at \<open>imagesRef\<close>. The result is the final store
  and, unless an exception was thrown, the object handed to \<^verbatim>\<open>setData\<close>, read from
  the store.
\<close>

definition loadAnalyticsOn ::
  "dateParser \<Rightarrow> (string \<Rightarrow> string) \<Rightarrow> int \<Rightarrow> string \<Rightarrow> nat \<Rightarrow> nat \<Rightarrow> store
   \<Rightarrow> (error + analyticsData) \<times> store" where
  "loadAnalyticsOn parse label now timeRange usersRef imagesRef h =
     (let daysBack = daysBackOf timeRange;
          (fimgs, h1) = filterImages
             (\<lambda>img. dateGe (newDate parse (createdAt img)) (startDate now daysBack)) imagesRef h;
          (daily, h2) = dailyStatsOn now daysBack fimgs h1
      in case daily of
           Inl e \<Rightarrow> (Inl e, h2)
         | Inr stats \<Rightarrow>
             (let (pc, h3) = promptCountsOn fimgs h2;
                  (prompts, h4) = topPromptsOn pc h3;
                  (monthly, h5) = monthlyUsersOn parse now usersRef h4
              in case monthly of
                   Inl e \<Rightarrow> (Inl e, h5)
                 | Inr mu \<Rightarrow>
                     (let (grown, h6) = userGrowthOn label mu h5
                      in (Inr \<lparr>totalUsers = length (usersAt h6 usersRef),
                               totalImages = length (imagesAt h6 imagesRef),
                               dataDailyStats = statsAt h6 stats,
                               dataTopPrompts = promptsAt h6 prompts,
                               dataUserGrowth = growthAt h6 grown\<rparr>, h6))))"

text \<open>
  UserManagement: the reduction \<^verbatim>\<open>imageCounts\<close> over the images at \<open>imagesRef\<close>; the
  result is the reference of the new object and the final store.
\<close>

definition imageCountsOn :: "nat \<Rightarrow> store \<Rightarrow> nat \<times> store" where
  "imageCountsOn imagesRef h =
     (let (acc, h1) = alloc h (CountObject [])
      in (acc, foldl (\<lambda>s img. incrementAt acc (userId img) s) h1 (imagesAt h1 imagesRef)))"

section \<open>Text filters with an empty query\<close>

lemma includes_empty: "includesStr s []"
  by (cases s) (simp_all add: startsWith_def)

text \<open>
  C8. With the empty string as the search text (and, in the gallery, the size and quality
  filters on \<^verbatim>\<open>'all'\<close>), both text filters return the collection they were given,
  with the same elements in the same order.
\<close>

theorem C8_empty_query_keeps_all:
  "galleryFilteredImages '''' ''all'' ''all'' imgs = imgs
   \<and> filteredUsers '''' usrs = usrs"
  by (simp add: galleryFilteredImages_def filteredUsers_def toLowerCase_def includes_empty)

section \<open>Average per day on an empty series\<close>

text \<open>
  C9. With no daily statistics the quotient is 0/0, which is \<^verbatim>\<open>NaN\<close>; rounding keeps
  it \<^verbatim>\<open>NaN\<close>, and the \<^verbatim>\<open>|| 0\<close> guard turns it into the number 0.
\<close>

theorem C9_avg_of_empty_is_zero:
  "jsDivide (foldl (\<lambda>sum stat. sum + images stat) 0 []) (length ([] :: dailyStat list)) = JNaN
   \<and> avgPerDay [] = JNum 0"
  by (simp add: avgPerDay_def jsDivide_def orZero_def)


section \<open>Decimal digits\<close>

lemma digit_cases: "d < 10 \<Longrightarrow> d \<in> {0, 1, 2, 3, 4, 5, 6, 7, 8, 9 :: nat}"
  by (simp add: eval_nat_numeral less_Suc_eq)

lemma of_char_digitChar: "d < 10 \<Longrightarrow> of_char (digitChar d) = 48 + d"
  by (drule digit_cases) (elim insertE emptyE; simp add: digitChar_def)

lemma digitChar_inj:
  assumes "d < 10" "e < 10" "digitChar d = digitChar e"
  shows "d = e"
proof -
  have "(of_char (digitChar d) :: nat) = of_char (digitChar e)" by (simp only: assms(3))
  then have "48 + d = 48 + e"
    by (simp only: of_char_digitChar [OF assms(1)] of_char_digitChar [OF assms(2)])
  then show ?thesis by simp
qed


lemma digitChar_in: "d < 10 \<Longrightarrow> digitChar d \<in> set ''0123456789''"
  by (drule digit_cases) (elim insertE emptyE; simp add: digitChar_def)

lemma length_fixedDigits: "length (fixedDigits w k) = w"
  by (induction w arbitrary: k) simp_all

lemma set_fixedDigits: "set (fixedDigits w k) \<subseteq> set ''0123456789''"
proof (induction w arbitrary: k)
  case 0
  then show ?case by simp
next
  case (Suc w)
  have "digitChar (k mod 10) \<in> set ''0123456789''" by (rule digitChar_in) simp
  with Suc [of "k div 10"] show ?case by simp
qed


lemma fixedDigits_inj:
  "k < 10 ^ w \<Longrightarrow> k' < 10 ^ w \<Longrightarrow> fixedDigits w k = fixedDigits w k' \<Longrightarrow> k = k'"
proof (induction w arbitrary: k k')
  case 0
  then show ?case by simp
next
  case (Suc w)
  from Suc.prems(3) have eq: "fixedDigits w (k div 10) = fixedDigits w (k' div 10)"
    and dg: "digitChar (k mod 10) = digitChar (k' mod 10)" by simp_all
  from Suc.prems(1,2) have "k div 10 < 10 ^ w" "k' div 10 < 10 ^ w"
    by (simp_all add: less_mult_imp_div_less mult.commute)
  from Suc.IH [OF this eq] have d: "k div 10 = k' div 10" .
  from dg have m: "k mod 10 = k' mod 10" by (intro digitChar_inj) simp_all
  have "k = k div 10 * 10 + k mod 10" by (rule div_mult_mod_eq [symmetric])
  also have "\<dots> = k' div 10 * 10 + k' mod 10" by (simp only: d m)
  also have "\<dots> = k'" by (rule div_mult_mod_eq)
  finally show ?case .
qed




section \<open>Calendar arithmetic\<close>

lemma dayFromYear_1970: "dayFromYear 1970 = 0"
  by (simp add: dayFromYear_def)

lemma dayFromYear_add_ge: "dayFromYear y + 365 * int k \<le> dayFromYear (y + int k)"
proof (induction k)
  case 0
  then show ?case by simp
next
  case (Suc k)
  have "y + int (Suc k) = y + int k + 1" by simp
  then have "dayFromYear (y + int (Suc k)) = dayFromYear (y + int k) + daysInYear (y + int k)"
    by (simp only: dayFromYear_step)
  with Suc daysInYear_ge [of "y + int k"] show ?case by simp
qed

lemma dayFromYear_add_le: "dayFromYear (y + int k) \<le> dayFromYear y + 366 * int k"
proof (induction k)
  case 0
  then show ?case by simp
next
  case (Suc k)
  have "y + int (Suc k) = y + int k + 1" by simp
  then have "dayFromYear (y + int (Suc k)) = dayFromYear (y + int k) + daysInYear (y + int k)"
    by (simp only: dayFromYear_step)
  with Suc daysInYear_le [of "y + int k"] show ?case by simp
qed

lemma dayFromYear_strict_mono: "y < y' \<Longrightarrow> dayFromYear y < dayFromYear y'"
proof -
  assume "y < y'"
  then obtain k where k: "y' = y + int k" "0 < k"
    by (metis zless_iff_Suc_zadd zero_less_Suc)
  with dayFromYear_add_ge [of y k] show ?thesis by simp
qed

lemma dayFromYear_mono: "y \<le> y' \<Longrightarrow> dayFromYear y \<le> dayFromYear y'"
  using dayFromYear_strict_mono [of y y'] by (cases "y = y'") auto

lemma yearFrom_bounds:
  "dayFromYear y \<le> d \<Longrightarrow>
     dayFromYear (yearFrom y d) \<le> d \<and> d < dayFromYear (yearFrom y d + 1)"
proof (induction y d rule: yearFrom.induct)
  case (1 y d)
  show ?case
  proof (cases "dayFromYear (y + 1) \<le> d")
    case True
    with "1.IH" show ?thesis by (subst (1 2) yearFrom.simps) simp
  next
    case False
    with "1.prems" show ?thesis by (subst (1 2) yearFrom.simps) simp
  qed
qed

lemma year_estimate:
  "dayFromYear (1970 + (if 0 \<le> d then d div 366 else d div 365)) \<le> d"
proof (cases "0 \<le> d")
  case True
  define k where "k = nat (d div 366)"
  have k: "d div 366 = int k" using True by (simp add: k_def)
  have "dayFromYear (1970 + int k) \<le> 366 * int k"
    using dayFromYear_add_le [of 1970 k] by (simp add: dayFromYear_1970)
  moreover have "366 * (d div 366) \<le> d" by simp
  ultimately show ?thesis using True k by simp
next
  case False
  define k where "k = nat (- (d div 365))"
  have neg: "d div 365 < 0" using False by simp
  then have k: "d div 365 = - int k" by (simp add: k_def)
  have "dayFromYear (1970 - int k) + 365 * int k \<le> dayFromYear (1970 - int k + int k)"
    by (rule dayFromYear_add_ge)
  then have "dayFromYear (1970 - int k) \<le> - 365 * int k"
    by (simp add: dayFromYear_1970)
  moreover have "365 * (d div 365) \<le> d" by simp
  ultimately show ?thesis using False k by simp
qed

lemma yearFromDay_bounds:
  "dayFromYear (yearFromDay d) \<le> d" "d < dayFromYear (yearFromDay d + 1)"
  using yearFrom_bounds [OF year_estimate [of d]] by (simp_all add: yearFromDay_def)

lemma yearFromDay_unique:
  assumes "dayFromYear y \<le> d" "d < dayFromYear (y + 1)"
  shows "yearFromDay d = y"
proof (rule ccontr)
  assume ne: "yearFromDay d \<noteq> y"
  show False
  proof (cases "yearFromDay d < y")
    case True
    then have "dayFromYear (yearFromDay d + 1) \<le> dayFromYear y"
      by (intro dayFromYear_mono) simp
    with assms(1) yearFromDay_bounds(2) [of d] show False by simp
  next
    case False
    with ne have "dayFromYear (y + 1) \<le> dayFromYear (yearFromDay d)"
      by (intro dayFromYear_mono) simp
    with assms(2) yearFromDay_bounds(1) [of d] show False by simp
  qed
qed

lemma yearFromDay_mono: "d \<le> d' \<Longrightarrow> yearFromDay d \<le> yearFromDay d'"
proof (rule ccontr)
  assume le: "d \<le> d'" and "\<not> yearFromDay d \<le> yearFromDay d'"
  then have "dayFromYear (yearFromDay d' + 1) \<le> dayFromYear (yearFromDay d)"
    by (intro dayFromYear_mono) simp
  with yearFromDay_bounds(1) [of d] yearFromDay_bounds(2) [of d'] le show False by simp
qed

lemma sum_monthLengths: "int (sum_list (monthLengths y)) = daysInYear y"
  by (simp add: monthLengths_def inLeapYear_def daysInYear_def)

lemma monthDate_props:
  "d < sum_list ls \<Longrightarrow> monthDate d ls = (m, r) \<Longrightarrow>
     m < length ls \<and> r < ls ! m \<and> d = sum_list (take m ls) + r"
proof (induction ls arbitrary: d m r)
  case Nil
  then show ?case by simp
next
  case (Cons l ls)
  show ?case
  proof (cases "d < l")
    case True
    with Cons.prems show ?thesis by simp
  next
    case False
    obtain m' r' where mr: "monthDate (d - l) ls = (m', r')" by (cases "monthDate (d - l) ls")
    from False Cons.prems mr have m: "m = Suc m'" "r = r'" by simp_all
    from False Cons.prems have "d - l < sum_list ls" by simp
    from Cons.IH [OF this mr]
    have "m' < length ls" "r' < ls ! m'" "d - l = sum_list (take m' ls) + r'" by simp_all
    with False show ?thesis by (auto simp: m)
  qed
qed

lemma monthDate_inj: "monthDate d ls = monthDate d' ls \<Longrightarrow> d = d'"
proof (induction ls arbitrary: d d')
  case Nil
  then show ?case by simp
next
  case (Cons l ls)
  show ?case
  proof (cases "d < l"; cases "d' < l")
    assume "\<not> d < l" "\<not> d' < l"
    with Cons.prems have "monthDate (d - l) ls = monthDate (d' - l) ls"
      by (auto split: prod.splits)
    from Cons.IH [OF this] \<open>\<not> d < l\<close> \<open>\<not> d' < l\<close> show ?thesis by simp
  qed (use Cons.prems in \<open>auto split: prod.splits\<close>)
qed


section \<open>The text of a date\<close>

lemma msPerDay_value: "msPerDay = 86400000"
  by (simp add: msPerDay_def)

lemma day_shift: "day (now - int i * msPerDay) = day now - int i"
proof -
  have "(now + (- int i) * 86400000) div 86400000 = - int i + now div 86400000"
    by (rule div_mult_self1) simp
  then show ?thesis by (simp add: day_def msPerDay_value)
qed

lemma day_mono: "t \<le> t' \<Longrightarrow> day t \<le> day t'"
  by (simp add: day_def msPerDay_value zdiv_mono1)

lemma day_range:
  assumes "\<bar>t\<bar> \<le> 8640000000000000"
  shows "\<bar>day t\<bar> \<le> 100000000"
proof -
  have "day (- 8640000000000000) \<le> day t" "day t \<le> day 8640000000000000"
    using assms by (auto intro!: day_mono)
  moreover have "day 8640000000000000 = 100000000" "day (- 8640000000000000) = - 100000000"
    by (simp_all add: day_def msPerDay_value)
  ultimately show ?thesis by simp
qed

lemma yearFromDay_max: "yearFromDay 100000000 = 275760"
  by (rule yearFromDay_unique) (simp_all add: dayFromYear_def)

lemma yearFromDay_min: "yearFromDay (- 100000000) = - 271821"
  by (rule yearFromDay_unique) (simp_all add: dayFromYear_def)

lemma year_range:
  assumes "\<bar>d\<bar> \<le> 100000000"
  shows "- 271821 \<le> yearFromDay d" "yearFromDay d \<le> 275760"
proof -
  have "yearFromDay (- 100000000) \<le> yearFromDay d" "yearFromDay d \<le> yearFromDay 100000000"
    using assms by (auto intro!: yearFromDay_mono)
  then show "- 271821 \<le> yearFromDay d" "yearFromDay d \<le> 275760"
    by (simp_all add: yearFromDay_max yearFromDay_min)
qed

lemma dayWithinYear_less:
  "nat (d - dayFromYear (yearFromDay d)) < sum_list (monthLengths (yearFromDay d))"
proof -
  have "d < dayFromYear (yearFromDay d) + daysInYear (yearFromDay d)"
    using yearFromDay_bounds(2) [of d] by (simp add: dayFromYear_step)
  then have "d - dayFromYear (yearFromDay d) < int (sum_list (monthLengths (yearFromDay d)))"
    by (simp add: sum_monthLengths)
  moreover have "0 \<le> d - dayFromYear (yearFromDay d)"
    using yearFromDay_bounds(1) [of d] by simp
  ultimately show ?thesis by (simp add: nat_less_iff)
qed

lemma monthLengths_le: "m < 12 \<Longrightarrow> monthLengths y ! m \<le> 31"
proof -
  assume "m < 12"
  then have "m \<in> {0, 1, 2, 3, 4, 5, 6, 7, 8, 9, 10, 11}"
    by (simp add: eval_nat_numeral less_Suc_eq)
  then show ?thesis by (elim insertE emptyE; simp add: monthLengths_def)
qed

lemma civil_props:
  assumes "civil d = (y, m, r)"
  shows "y = yearFromDay d" "m < 12" "r < 31"
    "monthDate (nat (d - dayFromYear y)) (monthLengths y) = (m, r)"
proof -
  from assms show y: "y = yearFromDay d"
    by (simp add: civil_def Let_def split: prod.splits)
  from assms show md: "monthDate (nat (d - dayFromYear y)) (monthLengths y) = (m, r)"
    by (auto simp: civil_def Let_def split: prod.splits)
  from monthDate_props [OF dayWithinYear_less [of d] md [unfolded y]]
  have "m < length (monthLengths (yearFromDay d))" "r < monthLengths (yearFromDay d) ! m"
    by simp_all
  then show "m < 12" "r < 31"
    using monthLengths_le [of m "yearFromDay d"] by (simp_all add: monthLengths_def)
qed

lemma civil_inj: "civil d = civil d' \<Longrightarrow> d = d'"
proof -
  assume eq: "civil d = civil d'"
  obtain y m r where c: "civil d = (y, m, r)" by (cases "civil d")
  with eq have c': "civil d' = (y, m, r)" by simp
  have y: "y = yearFromDay d" "y = yearFromDay d'"
    using civil_props(1) [OF c] civil_props(1) [OF c'] by simp_all
  have "monthDate (nat (d - dayFromYear y)) (monthLengths y)
        = monthDate (nat (d' - dayFromYear y)) (monthLengths y)"
    using civil_props(4) [OF c] civil_props(4) [OF c'] by simp
  then have "nat (d - dayFromYear y) = nat (d' - dayFromYear y)" by (rule monthDate_inj)
  moreover have "dayFromYear y \<le> d" "dayFromYear y \<le> d'"
    using yearFromDay_bounds(1) [of d] yearFromDay_bounds(1) [of d'] y by simp_all
  ultimately show ?thesis by linarith
qed

lemma T_not_digit: "CHR ''T'' \<notin> set ''0123456789''"
  by simp

lemma T_not_in_fixedDigits: "CHR ''T'' \<notin> set (fixedDigits w k)"
  using set_fixedDigits [of w k] T_not_digit by blast

lemma T_not_in_yearText: "CHR ''T'' \<notin> set (yearText y)"
  by (simp add: yearText_def T_not_in_fixedDigits)

lemma T_not_in_dateText: "CHR ''T'' \<notin> set (dateText d)"
  by (simp add: dateText_def T_not_in_fixedDigits T_not_in_yearText split: prod.splits)

lemma dateStr_of_iso:
  "takeWhile (\<lambda>c. c \<noteq> CHR ''T'') (dateText d @ ''T'' @ rest) = dateText d"
proof -
  have "takeWhile (\<lambda>c. c \<noteq> CHR ''T'') (dateText d @ (''T'' @ rest))
        = dateText d @ takeWhile (\<lambda>c. c \<noteq> CHR ''T'') (''T'' @ rest)"
    by (rule takeWhile_append2) (use T_not_in_dateText in auto)
  then show ?thesis by simp
qed

lemma length_yearText: "length (yearText y) = (if 0 \<le> y \<and> y \<le> 9999 then 4 else 7)"
  by (simp add: yearText_def length_fixedDigits)

lemma yearText_inj:
  assumes "\<bar>y\<bar> < 1000000" "\<bar>y'\<bar> < 1000000" "yearText y = yearText y'"
  shows "y = y'"
proof -
  have len: "length (yearText y) = length (yearText y')" using assms(3) by simp
  show ?thesis
  proof (cases "0 \<le> y \<and> y \<le> 9999")
    case True
    with len have r': "0 \<le> y' \<and> y' \<le> 9999" by (simp add: length_yearText split: if_splits)
    from assms(3) True r' have "fixedDigits 4 (nat y) = fixedDigits 4 (nat y')"
      by (simp add: yearText_def)
    moreover have "nat y < 10 ^ 4" "nat y' < 10 ^ 4" using True r' by (simp_all add: nat_less_iff)
    ultimately have "nat y = nat y'" by (intro fixedDigits_inj [of _ 4])
    with True r' show ?thesis by linarith
  next
    case False
    with len have r': "\<not> (0 \<le> y' \<and> y' \<le> 9999)"
      by (simp add: length_yearText split: if_splits)
    from assms(3) False r'
    have sign: "(y < 0) = (y' < 0)"
      and dig: "fixedDigits 6 (nat \<bar>y\<bar>) = fixedDigits 6 (nat \<bar>y'\<bar>)"
      by (auto simp: yearText_def split: if_splits)
    have "nat \<bar>y\<bar> < 10 ^ 6" "nat \<bar>y'\<bar> < 10 ^ 6"
      using assms(1,2) by (simp_all add: nat_less_iff)
    from fixedDigits_inj [OF this dig] have "\<bar>y\<bar> = \<bar>y'\<bar>" by simp
    with sign show ?thesis by linarith
  qed
qed

lemma dateText_inj:
  assumes "\<bar>d\<bar> \<le> 100000000" "\<bar>d'\<bar> \<le> 100000000" "dateText d = dateText d'"
  shows "d = d'"
proof -
  obtain y m r where c: "civil d = (y, m, r)" by (cases "civil d") auto
  obtain y' m' r' where c': "civil d' = (y', m', r')" by (cases "civil d'") auto
  note p = civil_props [OF c] and p' = civil_props [OF c']
  have yr: "\<bar>y\<bar> < 1000000" "\<bar>y'\<bar> < 1000000"
    using year_range [OF assms(1)] year_range [OF assms(2)] p(1) p'(1) by simp_all
  from assms(3) have eq:
    "yearText y @ ''-'' @ fixedDigits 2 (Suc m) @ ''-'' @ fixedDigits 2 (Suc r)
     = yearText y' @ ''-'' @ fixedDigits 2 (Suc m') @ ''-'' @ fixedDigits 2 (Suc r')"
    by (simp add: dateText_def c c')
  from arg_cong [OF this, of length]
  have "length (yearText y) + 6 = length (yearText y') + 6"
    by (simp add: length_fixedDigits)
  then have len: "length (yearText y) = length (yearText y')" by simp
  have y: "yearText y = yearText y'"
    and rest: "''-'' @ fixedDigits 2 (Suc m) @ ''-'' @ fixedDigits 2 (Suc r)
               = ''-'' @ fixedDigits 2 (Suc m') @ ''-'' @ fixedDigits 2 (Suc r')"
    using eq len append_eq_append_conv [of "yearText y" "yearText y'"] by blast+
  from rest have m: "fixedDigits 2 (Suc m) = fixedDigits 2 (Suc m')"
    and r: "fixedDigits 2 (Suc r) = fixedDigits 2 (Suc r')"
    by (simp_all add: append_eq_append_conv length_fixedDigits)
  have "Suc m = Suc m'"
    by (rule fixedDigits_inj [OF _ _ m]) (use p(2) p'(2) in simp_all)
  moreover have "Suc r = Suc r'"
    by (rule fixedDigits_inj [OF _ _ r]) (use p(3) p'(3) in simp_all)
  moreover have "y = y'" by (rule yearText_inj [OF yr y])
  ultimately have "civil d = civil d'" by (simp add: c c')
  then show ?thesis by (rule civil_inj)
qed

lemma toISOString_valid:
  "\<bar>t\<bar> \<le> 8640000000000000 \<Longrightarrow>
     toISOString (timeClip t) = Inr (dateText (day t) @ ''T'' @ clockText (timeWithinDay t) @ ''Z'')"
  by (simp add: timeClip_def)

lemma dailyStatsLoop_eq:
  "(\<And>i. i < k \<Longrightarrow> \<bar>now - int i * msPerDay\<bar> \<le> 8640000000000000) \<Longrightarrow>
     dailyStatsLoop now fimgs k acc
       = Inr (acc @ map (\<lambda>i. dayStat fimgs (dateText (day now - int i))) (rev [0..<k]))"
proof (induction k arbitrary: acc)
  case 0
  then show ?case by simp
next
  case (Suc k)
  have v: "\<bar>now - int k * msPerDay\<bar> \<le> 8640000000000000" using Suc.prems by simp
  have ih: "dailyStatsLoop now fimgs k acc'
       = Inr (acc' @ map (\<lambda>i. dayStat fimgs (dateText (day now - int i))) (rev [0..<k]))" for acc'
    using Suc.prems by (intro Suc.IH) simp
  show ?case
    by (simp add: toISOString_valid [OF v] dateStr_of_iso day_shift ih del: append.simps)
qed

section \<open>Evaluating dates at concrete days\<close>

lemma fixedDigits_2: "fixedDigits 2 k = [digitChar (k div 10 mod 10), digitChar (k mod 10)]"
  by (simp add: numeral_2_eq_2)

lemma fixedDigits_3:
  "fixedDigits 3 k =
     [digitChar (k div 10 div 10 mod 10), digitChar (k div 10 mod 10), digitChar (k mod 10)]"
  by (simp add: numeral_3_eq_3)

lemma fixedDigits_4:
  "fixedDigits 4 k =
     [digitChar (k div 10 div 10 div 10 mod 10), digitChar (k div 10 div 10 mod 10),
      digitChar (k div 10 mod 10), digitChar (k mod 10)]"
proof -
  have e: "(4::nat) = Suc 3" by simp
  show ?thesis unfolding e fixedDigits.simps fixedDigits_3 by simp
qed

lemma digitChar_simps:
  "digitChar 0 = CHR ''0''" "digitChar 1 = CHR ''1''" "digitChar 2 = CHR ''2''"
  "digitChar 3 = CHR ''3''" "digitChar 4 = CHR ''4''" "digitChar 5 = CHR ''5''"
  "digitChar 6 = CHR ''6''" "digitChar 7 = CHR ''7''" "digitChar 8 = CHR ''8''"
  "digitChar 9 = CHR ''9''" "digitChar (Suc 0) = CHR ''1''" "digitChar (Suc (Suc 0)) = CHR ''2''"
  by (simp_all add: digitChar_def)

lemma dateText_at:
  assumes "dayFromYear y \<le> d" "d < dayFromYear (y + 1)"
    and "monthDate (nat (d - dayFromYear y)) (monthLengths y) = (m, r)"
  shows "dateText d = yearText y @ ''-'' @ fixedDigits 2 (Suc m) @ ''-'' @ fixedDigits 2 (Suc r)"
proof -
  have "yearFromDay d = y" using assms(1,2) by (rule yearFromDay_unique)
  then show ?thesis by (simp add: dateText_def civil_def assms(3))
qed

lemmas calendar_eval =
  dayFromYear_def monthLengths_def inLeapYear_def daysInYear_def yearText_def
  fixedDigits_2 fixedDigits_4 digitChar_simps

lemma dateText_2024_01_03: "dateText 19725 = ''2024-01-03''"
  by (rule trans [OF dateText_at [of 2024 _ 0 2]]) (simp_all add: calendar_eval)

lemma dateText_2024_01_02: "dateText 19724 = ''2024-01-02''"
  by (rule trans [OF dateText_at [of 2024 _ 0 1]]) (simp_all add: calendar_eval)

lemma dateText_2024_01_01: "dateText 19723 = ''2024-01-01''"
  by (rule trans [OF dateText_at [of 2024 _ 0 0]]) (simp_all add: calendar_eval)

lemma dateText_2023_12_31: "dateText 19722 = ''2023-12-31''"
  by (rule trans [OF dateText_at [of 2023 _ 11 30]]) (simp_all add: calendar_eval)

lemma dateText_2023_12_30: "dateText 19721 = ''2023-12-30''"
  by (rule trans [OF dateText_at [of 2023 _ 11 29]]) (simp_all add: calendar_eval)

lemma dateText_2023_12_29: "dateText 19720 = ''2023-12-29''"
  by (rule trans [OF dateText_at [of 2023 _ 11 28]]) (simp_all add: calendar_eval)

lemma dateText_2023_12_28: "dateText 19719 = ''2023-12-28''"
  by (rule trans [OF dateText_at [of 2023 _ 11 27]]) (simp_all add: calendar_eval)

lemmas dateText_examples =
  dateText_2023_12_28 dateText_2023_12_29 dateText_2023_12_30 dateText_2023_12_31
  dateText_2024_01_01 dateText_2024_01_02 dateText_2024_01_03

lemma day_example: "day 1704283200000 = 19725"
  by (simp add: day_def msPerDay_value)

lemma dailyStats_eq:
  "(\<And>i. i < daysBack \<Longrightarrow> \<bar>now - int i * msPerDay\<bar> \<le> 8640000000000000) \<Longrightarrow>
     dailyStats now daysBack fimgs
       = Inr (map (\<lambda>i. dayStat fimgs (dateText (day now - int i))) (rev [0..<daysBack]))"
  by (simp add: dailyStats_def dailyStatsLoop_eq)


section \<open>The daily statistics\<close>

text \<open>
  C1. Whenever every date of the window is a valid \<^verbatim>\<open>Date\<close> (as it is for the clock
  of a running system and the ranges 7, 30 and 90), the loop returns, for any collection
  of images and any parser, exactly \<open>daysBack\<close> entries; entry \<open>j\<close> is the statistic
  of the UTC calendar day \<open>daysBack - 1 - j\<close> days before today, computed by \<open>dayStat\<close>
  whether or not the day has images; so the days run from the oldest to today, one step at
  a time, and no date occurs twice.
\<close>

theorem C1_daily_stats_one_entry_per_day:
  assumes "\<forall>i<daysBack. \<bar>now - int i * msPerDay\<bar> \<le> 8640000000000000"
  shows "\<exists>stats.
           dailyStats now daysBack (filteredImages parse now daysBack imgs) = Inr stats
           \<and> length stats = daysBack
           \<and> (\<forall>j<daysBack.
                 stats ! j = dayStat (filteredImages parse now daysBack imgs)
                               (dateText (day now - int (daysBack - 1 - j))))
           \<and> map date stats
               = map (\<lambda>j. dateText (day now - int (daysBack - 1 - j))) [0..<daysBack]
           \<and> distinct (map date stats)"
proof -
  define fimgs where "fimgs = filteredImages parse now daysBack imgs"
  define stats where
    "stats = map (\<lambda>i. dayStat fimgs (dateText (day now - int i))) (rev [0..<daysBack])"
  have run: "dailyStats now daysBack fimgs = Inr stats"
    unfolding stats_def using assms by (intro dailyStats_eq) simp
  have len: "length stats = daysBack" by (simp add: stats_def)
  have nth: "stats ! j = dayStat fimgs (dateText (day now - int (daysBack - 1 - j)))"
    if "j < daysBack" for j
    using that by (simp add: stats_def rev_nth)
  have date_nth: "date (dayStat fimgs s) = s" for s by (simp add: dayStat_def Let_def)
  have dates: "map date stats
               = map (\<lambda>j. dateText (day now - int (daysBack - 1 - j))) [0..<daysBack]"
    by (rule nth_equalityI) (simp_all add: len nth date_nth)
  have "distinct (map (\<lambda>j. dateText (day now - int (daysBack - 1 - j))) [0..<daysBack])"
  proof (subst distinct_map, intro conjI inj_onI)
    show "distinct [0..<daysBack]" by simp
  next
    fix j k
    assume j: "j \<in> set [0..<daysBack]" and k: "k \<in> set [0..<daysBack]"
      and eq: "dateText (day now - int (daysBack - 1 - j))
               = dateText (day now - int (daysBack - 1 - k))"
    have valid: "\<bar>day now - int i\<bar> \<le> 100000000" if "i < daysBack" for i
      using day_range [of "now - int i * msPerDay"] assms that by (simp add: day_shift)
    have "day now - int (daysBack - 1 - j) = day now - int (daysBack - 1 - k)"
      using j k by (intro dateText_inj [OF valid valid eq]) simp_all
    with j k show "j = k" by simp
  qed
  with dates have dist: "distinct (map date stats)" by simp
  from run len nth dates dist show ?thesis unfolding fimgs_def by blast
qed

theorem C1_daily_stats_witness:
  "\<exists>stats.
     dailyStats 1704283200000 7 (filteredImages isoParse 1704283200000 7 []) = Inr stats
     \<and> length stats = 7
     \<and> map date stats
         = map (\<lambda>j. dateText (19725 - int (7 - 1 - j))) [0..<7]
     \<and> distinct (map date stats)"
proof -
  have "\<forall>i<7. \<bar>1704283200000 - int i * msPerDay\<bar> \<le> 8640000000000000"
    by (auto simp: msPerDay_value)
  from C1_daily_stats_one_entry_per_day [OF this, of isoParse "[]"]
  show ?thesis by (auto simp: day_example)
qed

section \<open>The time window\<close>

lemma dateGe_Some_iff: "dateGe a (Some s) \<longleftrightarrow> (\<exists>t. a = Some t \<and> s \<le> t)"
  by (cases a) simp_all

text \<open>
  C3, as amended. With a start date that is a valid \<^verbatim>\<open>Date\<close>, the filter keeps, in the
  order of the input, exactly the images whose \<^verbatim>\<open>createdAt\<close> parses to a time value
  not before \<open>now - daysBack\<close> days. There is no upper bound: an image dated after
  \<open>now\<close> is kept.
\<close>

theorem C3_window_has_lower_bound_only:
  assumes "\<bar>now - int daysBack * msPerDay\<bar> \<le> 8640000000000000"
  shows "filteredImages parse now daysBack imgs
           = filter (\<lambda>img. \<exists>t. newDate parse (createdAt img) = Some t
                              \<and> now - int daysBack * msPerDay \<le> t) imgs
         \<and> (img \<in> set (filteredImages parse now daysBack imgs)
              \<longleftrightarrow> img \<in> set imgs
                  \<and> (\<exists>t. newDate parse (createdAt img) = Some t
                           \<and> now - int daysBack * msPerDay \<le> t))"
  using assms by (simp add: filteredImages_def startDate_def timeClip_def dateGe_Some_iff)

theorem C3_window_witness:
  "filteredImages isoParse 1704283200000 7
     [\<lparr>imgId = ''i1'', userId = ''a'', url = ''u1'', prompt = ''a cat'',
        imgSize = ''1024x1024'', quality = ''hd'', createdAt = ''2023-12-01T10:00:00Z''\<rparr>,
      \<lparr>imgId = ''i2'', userId = ''b'', url = ''u2'', prompt = ''a dog'',
        imgSize = ''1024x1024'', quality = ''hd'', createdAt = ''2024-01-01T10:00:00Z''\<rparr>]
   = [\<lparr>imgId = ''i2'', userId = ''b'', url = ''u2'', prompt = ''a dog'',
        imgSize = ''1024x1024'', quality = ''hd'', createdAt = ''2024-01-01T10:00:00Z''\<rparr>]"
proof -
  have p1: "isoParse ''2023-12-01T10:00:00Z'' = Some 1701424800000" by code_simp
  have p2: "isoParse ''2024-01-01T10:00:00Z'' = Some 1704103200000" by code_simp
  have "\<bar>1704283200000 - int 7 * msPerDay\<bar> \<le> 8640000000000000"
    by (simp add: msPerDay_value)
  from C3_window_has_lower_bound_only [OF this, THEN conjunct1]
  show ?thesis by (simp add: newDate_def timeClip_def p1 p2 msPerDay_value)
qed

text \<open>
  The claim as written asks for the interval \<open>[now - windowDays, now]\<close>. With the clock
  at 2024-01-03T12:00:00Z and a window of 7 days, an image dated 2025-01-01, a year after
  \<open>now\<close>, is in the output.
\<close>

theorem C3_future_image_counterexample:
  "filteredImages isoParse 1704283200000 7
     [\<lparr>imgId = ''i1'', userId = ''a'', url = ''u1'', prompt = ''a cat'',
        imgSize = ''1024x1024'', quality = ''hd'', createdAt = ''2025-01-01T00:00:00Z''\<rparr>]
   = [\<lparr>imgId = ''i1'', userId = ''a'', url = ''u1'', prompt = ''a cat'',
        imgSize = ''1024x1024'', quality = ''hd'', createdAt = ''2025-01-01T00:00:00Z''\<rparr>]
   \<and> newDate isoParse ''2025-01-01T00:00:00Z'' = Some 1735689600000
   \<and> \<not> (1735689600000 \<le> (1704283200000 :: int))"
proof -
  have p: "isoParse ''2025-01-01T00:00:00Z'' = Some 1735689600000" by code_simp
  show ?thesis
    by (simp add: filteredImages_def startDate_def newDate_def timeClip_def p msPerDay_value)
qed

section \<open>The Active Users figure\<close>

lemma concat_zeros_set:
  "set (concat (map (\<lambda>stat. replicate (users stat) (0::nat)) stats))
     = (if \<exists>s \<in> set stats. 0 < users s then {0} else {})"
  by (induction stats) auto

lemma activeUsers_indicator:
  "activeUsers stats = (if \<exists>s \<in> set stats. 0 < users s then 1 else 0)"
  unfolding activeUsers_def length_remdups_card_conv concat_zeros_set by simp

text \<open>
  C7, as amended. The set is built from zeros only, so the figure is 1 when some day has a
  user and 0 otherwise. It is never greater than 1, and so differs from the number of
  distinct users of the period whenever that number is 2 or more. (It does equal that
  number when it is 0 or 1: see \<open>C7_equals_distinct_users_counterexample\<close>.)
\<close>

theorem C7_active_users_is_indicator:
  "activeUsers stats = (if \<exists>s \<in> set stats. 0 < users s then 1 else 0)
   \<and> activeUsers stats \<le> 1
   \<and> (\<forall>n. 2 \<le> n \<longrightarrow> activeUsers stats \<noteq> n)"
  by (simp add: activeUsers_indicator)

theorem C7_active_users_witness:
  "activeUsers [\<lparr>date = ''2024-01-01'', users = 2, images = 3\<rparr>,
                \<lparr>date = ''2024-01-02'', users = 0, images = 0\<rparr>,
                \<lparr>date = ''2024-01-03'', users = 1, images = 1\<rparr>] = 1
   \<and> activeUsers [\<lparr>date = ''2024-01-01'', users = 2, images = 3\<rparr>,
                  \<lparr>date = ''2024-01-02'', users = 0, images = 0\<rparr>,
                  \<lparr>date = ''2024-01-03'', users = 1, images = 1\<rparr>] \<noteq> 2"
  using C7_active_users_is_indicator
    [of "[\<lparr>date = ''2024-01-01'', users = 2, images = 3\<rparr>,
          \<lparr>date = ''2024-01-02'', users = 0, images = 0\<rparr>,
          \<lparr>date = ''2024-01-03'', users = 1, images = 1\<rparr>]"]
  by simp

text \<open>
  The claim as written also says that the figure never equals the number of distinct
  users of the period. With the clock at 2024-01-03T12:00:00Z, the range \<^verbatim>\<open>'7d'\<close> and
  one image, made by user \<open>a\<close> on 2024-01-03, the daily statistics have one user on the
  last day, the figure is 1, and the number of distinct users of the last seven days,
  counted as AdminDashboard counts it, is 1 as well.
\<close>

theorem C7_equals_distinct_users_counterexample:
  "dailyStats 1704283200000 (daysBackOf ''7d'')
     (filteredImages isoParse 1704283200000 (daysBackOf ''7d'')
        [\<lparr>imgId = ''i1'', userId = ''a'', url = ''u1'', prompt = ''a cat'',
          imgSize = ''1024x1024'', quality = ''hd'', createdAt = ''2024-01-03T09:00:00Z''\<rparr>])
     = Inr [\<lparr>date = ''2023-12-28'', users = 0, images = 0\<rparr>,
            \<lparr>date = ''2023-12-29'', users = 0, images = 0\<rparr>,
            \<lparr>date = ''2023-12-30'', users = 0, images = 0\<rparr>,
            \<lparr>date = ''2023-12-31'', users = 0, images = 0\<rparr>,
            \<lparr>date = ''2024-01-01'', users = 0, images = 0\<rparr>,
            \<lparr>date = ''2024-01-02'', users = 0, images = 0\<rparr>,
            \<lparr>date = ''2024-01-03'', users = 1, images = 1\<rparr>]
   \<and> activeUsers [\<lparr>date = ''2023-12-28'', users = 0, images = 0\<rparr>,
            \<lparr>date = ''2023-12-29'', users = 0, images = 0\<rparr>,
            \<lparr>date = ''2023-12-30'', users = 0, images = 0\<rparr>,
            \<lparr>date = ''2023-12-31'', users = 0, images = 0\<rparr>,
            \<lparr>date = ''2024-01-01'', users = 0, images = 0\<rparr>,
            \<lparr>date = ''2024-01-02'', users = 0, images = 0\<rparr>,
            \<lparr>date = ''2024-01-03'', users = 1, images = 1\<rparr>] = 1
   \<and> dashboardActiveUsers isoParse 1704283200000
        [\<lparr>imgId = ''i1'', userId = ''a'', url = ''u1'', prompt = ''a cat'',
          imgSize = ''1024x1024'', quality = ''hd'', createdAt = ''2024-01-03T09:00:00Z''\<rparr>] = 1"
proof -
  have p: "isoParse ''2024-01-03T09:00:00Z'' = Some 1704272400000" by code_simp
  have f: "filteredImages isoParse 1704283200000 7
        [\<lparr>imgId = ''i1'', userId = ''a'', url = ''u1'', prompt = ''a cat'',
          imgSize = ''1024x1024'', quality = ''hd'', createdAt = ''2024-01-03T09:00:00Z''\<rparr>]
      = [\<lparr>imgId = ''i1'', userId = ''a'', url = ''u1'', prompt = ''a cat'',
          imgSize = ''1024x1024'', quality = ''hd'', createdAt = ''2024-01-03T09:00:00Z''\<rparr>]"
    by (simp add: filteredImages_def startDate_def newDate_def timeClip_def p msPerDay_value)
  have r: "rev [0..<7] = [6, 5, 4, 3, 2, 1, 0]" by (simp add: upt_rec)
  have "dailyStats 1704283200000 7
        [\<lparr>imgId = ''i1'', userId = ''a'', url = ''u1'', prompt = ''a cat'',
          imgSize = ''1024x1024'', quality = ''hd'', createdAt = ''2024-01-03T09:00:00Z''\<rparr>]
     = Inr [\<lparr>date = ''2023-12-28'', users = 0, images = 0\<rparr>,
            \<lparr>date = ''2023-12-29'', users = 0, images = 0\<rparr>,
            \<lparr>date = ''2023-12-30'', users = 0, images = 0\<rparr>,
            \<lparr>date = ''2023-12-31'', users = 0, images = 0\<rparr>,
            \<lparr>date = ''2024-01-01'', users = 0, images = 0\<rparr>,
            \<lparr>date = ''2024-01-02'', users = 0, images = 0\<rparr>,
            \<lparr>date = ''2024-01-03'', users = 1, images = 1\<rparr>]"
    by (subst dailyStats_eq)
       (auto simp: msPerDay_value day_example r dateText_examples dayStat_def startsWith_def)
  moreover have "activeUsers [\<lparr>date = ''2023-12-28'', users = 0, images = 0\<rparr>,
            \<lparr>date = ''2023-12-29'', users = 0, images = 0\<rparr>,
            \<lparr>date = ''2023-12-30'', users = 0, images = 0\<rparr>,
            \<lparr>date = ''2023-12-31'', users = 0, images = 0\<rparr>,
            \<lparr>date = ''2024-01-01'', users = 0, images = 0\<rparr>,
            \<lparr>date = ''2024-01-02'', users = 0, images = 0\<rparr>,
            \<lparr>date = ''2024-01-03'', users = 1, images = 1\<rparr>] = 1"
    by (simp add: activeUsers_def)
  moreover have "dashboardActiveUsers isoParse 1704283200000
        [\<lparr>imgId = ''i1'', userId = ''a'', url = ''u1'', prompt = ''a cat'',
          imgSize = ''1024x1024'', quality = ''hd'', createdAt = ''2024-01-03T09:00:00Z''\<rparr>] = 1"
    by (simp add: dashboardActiveUsers_def newDate_def timeClip_def p msPerDay_value)
  ultimately show ?thesis by (simp add: daysBackOf_def f)
qed

section \<open>CSV export\<close>

lemma showNat_nonempty: "showNat n \<noteq> []"
  by (subst showNat.simps) simp

lemma digitChar_not_newline: "d < 10 \<Longrightarrow> digitChar d \<noteq> CHR 0x0A"
  by (drule digit_cases) (elim insertE emptyE; simp add: digitChar_def)

lemma last_showNat: "last (showNat n) = digitChar (n mod 10)"
  by (subst showNat.simps) simp

lemma join_rows: "join sep (x # xs) = x @ concat (map (\<lambda>r. sep @ r) xs)"
  by (induction xs arbitrary: x) simp_all

lemma csvContent_rows:
  "csvContent stats =
     ''Date,Users,Images''
     @ concat (map (\<lambda>stat. CHR 0x0A # date stat @ '','' @ showNat (users stat)
                              @ '','' @ showNat (images stat)) stats)"
  by (simp add: csvContent_def join_rows comp_def)

lemma csv_no_trailing_newline: "last (csvContent stats) \<noteq> CHR 0x0A"
proof (cases stats rule: rev_cases)
  case Nil
  then show ?thesis by (simp add: csvContent_rows)
next
  case (snoc ys y)
  have "last (csvContent stats) = last (showNat (images y))"
    by (simp add: csvContent_rows snoc showNat_nonempty)
  then show ?thesis
    by (simp add: last_showNat digitChar_not_newline)
qed

lemma showNat_digit: "n < 10 \<Longrightarrow> showNat n = [digitChar n]"
  by (subst showNat.simps) simp

lemma csv_three_days:
  "csvContent
      [\<lparr>date = ''2024-01-01'', users = 1, images = 2\<rparr>,
       \<lparr>date = ''2024-01-02'', users = 0, images = 0\<rparr>,
       \<lparr>date = ''2024-01-03'', users = 1, images = 1\<rparr>]
     = ''Date,Users,Images'' @ [CHR 0x0A] @ ''2024-01-01,1,2'' @ [CHR 0x0A]
       @ ''2024-01-02,0,0'' @ [CHR 0x0A] @ ''2024-01-03,1,1''"
  by (simp add: csvContent_rows showNat_digit digitChar_simps)

lemma daily_three_days:
  "dailyStats 1704283200000 3
       (filteredImages isoParse 1704283200000 3
         [\<lparr>imgId = ''i1'', userId = ''a'', url = ''u1'', prompt = ''a cat'',
            imgSize = ''1024x1024'', quality = ''hd'', createdAt = ''2024-01-01T10:00:00Z''\<rparr>,
          \<lparr>imgId = ''i2'', userId = ''a'', url = ''u2'', prompt = ''a dog'',
            imgSize = ''1024x1024'', quality = ''hd'', createdAt = ''2024-01-01T12:00:00Z''\<rparr>,
          \<lparr>imgId = ''i3'', userId = ''b'', url = ''u3'', prompt = ''a cat'',
            imgSize = ''1024x1024'', quality = ''hd'', createdAt = ''2024-01-03T09:00:00Z''\<rparr>])
     = Inr [\<lparr>date = ''2024-01-01'', users = 1, images = 2\<rparr>,
            \<lparr>date = ''2024-01-02'', users = 0, images = 0\<rparr>,
            \<lparr>date = ''2024-01-03'', users = 1, images = 1\<rparr>]"
proof -
  have f: "filteredImages isoParse 1704283200000 3
         [\<lparr>imgId = ''i1'', userId = ''a'', url = ''u1'', prompt = ''a cat'',
            imgSize = ''1024x1024'', quality = ''hd'', createdAt = ''2024-01-01T10:00:00Z''\<rparr>,
          \<lparr>imgId = ''i2'', userId = ''a'', url = ''u2'', prompt = ''a dog'',
            imgSize = ''1024x1024'', quality = ''hd'', createdAt = ''2024-01-01T12:00:00Z''\<rparr>,
          \<lparr>imgId = ''i3'', userId = ''b'', url = ''u3'', prompt = ''a cat'',
            imgSize = ''1024x1024'', quality = ''hd'', createdAt = ''2024-01-03T09:00:00Z''\<rparr>]
      = [\<lparr>imgId = ''i1'', userId = ''a'', url = ''u1'', prompt = ''a cat'',
            imgSize = ''1024x1024'', quality = ''hd'', createdAt = ''2024-01-01T10:00:00Z''\<rparr>,
          \<lparr>imgId = ''i2'', userId = ''a'', url = ''u2'', prompt = ''a dog'',
            imgSize = ''1024x1024'', quality = ''hd'', createdAt = ''2024-01-01T12:00:00Z''\<rparr>,
          \<lparr>imgId = ''i3'', userId = ''b'', url = ''u3'', prompt = ''a cat'',
            imgSize = ''1024x1024'', quality = ''hd'', createdAt = ''2024-01-03T09:00:00Z''\<rparr>]"
    by code_simp
  have r: "rev [0..<3] = [2, 1, 0]" by (simp add: upt_rec)
  show ?thesis
    unfolding f
    by (subst dailyStats_eq)
       (auto simp: msPerDay_value day_example r dateText_examples dayStat_def startsWith_def)
qed

text \<open>
  C5. The CSV text is the header \<^verbatim>\<open>Date,Users,Images\<close> followed, for each daily
  statistic in the order of the list, by a newline and the row
  \<^verbatim>\<open>date,users,images\<close>; it never ends in a newline. For the three days
  2024-01-01 to 2024-01-03 with image counts 2, 0, 1 and user counts 1, 0, 1 (which is
  what the daily statistics are for two images of one user on the first day and one image
  on the third, with the clock at 2024-01-03T12:00:00Z) the text is exactly the one of the
  specification.
\<close>

theorem C5_csv_export_format:
  "csvContent stats =
     ''Date,Users,Images''
     @ concat (map (\<lambda>stat. CHR 0x0A # date stat @ '','' @ showNat (users stat)
                              @ '','' @ showNat (images stat)) stats)
   \<and> last (csvContent stats) \<noteq> CHR 0x0A
   \<and> dailyStats 1704283200000 3
       (filteredImages isoParse 1704283200000 3
         [\<lparr>imgId = ''i1'', userId = ''a'', url = ''u1'', prompt = ''a cat'',
            imgSize = ''1024x1024'', quality = ''hd'', createdAt = ''2024-01-01T10:00:00Z''\<rparr>,
          \<lparr>imgId = ''i2'', userId = ''a'', url = ''u2'', prompt = ''a dog'',
            imgSize = ''1024x1024'', quality = ''hd'', createdAt = ''2024-01-01T12:00:00Z''\<rparr>,
          \<lparr>imgId = ''i3'', userId = ''b'', url = ''u3'', prompt = ''a cat'',
            imgSize = ''1024x1024'', quality = ''hd'', createdAt = ''2024-01-03T09:00:00Z''\<rparr>])
     = Inr [\<lparr>date = ''2024-01-01'', users = 1, images = 2\<rparr>,
            \<lparr>date = ''2024-01-02'', users = 0, images = 0\<rparr>,
            \<lparr>date = ''2024-01-03'', users = 1, images = 1\<rparr>]
   \<and> csvContent
      [\<lparr>date = ''2024-01-01'', users = 1, images = 2\<rparr>,
       \<lparr>date = ''2024-01-02'', users = 0, images = 0\<rparr>,
       \<lparr>date = ''2024-01-03'', users = 1, images = 1\<rparr>]
     = ''Date,Users,Images'' @ [CHR 0x0A] @ ''2024-01-01,1,2'' @ [CHR 0x0A]
       @ ''2024-01-02,0,0'' @ [CHR 0x0A] @ ''2024-01-03,1,1''"
  using csvContent_rows csv_no_trailing_newline daily_three_days csv_three_days
  by (intro conjI)

section \<open>Counting in a dictionary\<close>

lemma keys_setProperty:
  "map fst (setProperty acc k v)
     = (if k \<in> set (map fst acc) then map fst acc else map fst acc @ [k])"
proof -
  have "map fst (map (\<lambda>(k', v'). if k' = k then (k', v) else (k', v')) acc) = map fst acc"
    by (induction acc) auto
  then show ?thesis by (simp add: setProperty_def)
qed

lemma keys_increment:
  "map fst (increment acc k)
     = (if k \<in> set (map fst acc) then map fst acc else map fst acc @ [k])"
  by (simp add: increment_def keys_setProperty)

lemma map_of_setProperty:
  "map_of (setProperty acc k v) k' = (if k' = k then Some v else map_of acc k')"
proof (cases "k \<in> set (map fst acc)")
  case True
  have upd: "map_of (map (\<lambda>(k', v'). if k' = k then (k', v) else (k', v')) acc) k'
        = (if k' = k then map_option (\<lambda>_. v) (map_of acc k') else map_of acc k')"
    by (induction acc) auto
  from True have "map_of acc k \<noteq> None" by (simp add: map_of_eq_None_iff)
  then obtain n where "map_of acc k = Some n" by blast
  with True upd show ?thesis by (simp add: setProperty_def)
next
  case False
  then have "map_of acc k = None" by (simp add: map_of_eq_None_iff)
  with False show ?thesis
    by (auto simp: setProperty_def map_add_def split: option.splits)
qed

lemma map_of_increment:
  "map_of (increment acc k) k'
     = (if k' = k then Some (case map_of acc k of None \<Rightarrow> 1 | Some n \<Rightarrow> n + 1)
        else map_of acc k')"
  by (simp add: increment_def map_of_setProperty split: option.splits)

lemma tally_snoc: "foldl increment acc (ks @ [k]) = increment (foldl increment acc ks) k"
  by simp

lemma keys_tally_set: "set (map fst (foldl increment [] ks)) = set ks"
  by (induction ks rule: rev_induct) (auto simp: keys_increment)

lemma keys_tally_distinct: "distinct (map fst (foldl increment [] ks))"
  by (induction ks rule: rev_induct) (auto simp: keys_increment)

lemma map_of_tally:
  "map_of (foldl increment [] ks) k = (if k \<in> set ks then Some (count_list ks k) else None)"
proof (induction ks rule: rev_induct)
  case Nil
  then show ?case by simp
next
  case (snoc x xs)
  then show ?case by (auto simp: map_of_increment)
qed

lemma tally_entry:
  assumes "(k, n) \<in> set (foldl increment [] ks)"
  shows "k \<in> set ks" "n = count_list ks k" "1 \<le> n"
proof -
  from assms have m: "map_of (foldl increment [] ks) k = Some n"
    by (simp add: keys_tally_distinct)
  then show k: "k \<in> set ks" by (simp add: map_of_tally split: if_splits)
  from m show n: "n = count_list ks k" by (simp add: map_of_tally split: if_splits)
  from k have "count_list ks k \<noteq> 0" by (simp only: count_list_0_iff) simp
  then have "0 < count_list ks k" by simp
  with n show "1 \<le> n" by simp
qed

lemma length_tally: "length (foldl increment [] ks) = card (set ks)"
proof -
  have "length (foldl increment [] ks) = length (map fst (foldl increment [] ks))" by simp
  also have "\<dots> = card (set (map fst (foldl increment [] ks)))"
    by (rule distinct_card [symmetric]) (rule keys_tally_distinct)
  finally show ?thesis by (simp only: keys_tally_set)
qed

lemma firstEncounter_snoc:
  "a \<in> set ks \<Longrightarrow> firstEncounter (ks @ [k]) a = firstEncounter ks a"
  by (simp add: firstEncounter_def takeWhile_append1)

lemma firstEncounter_less: "a \<in> set ks \<Longrightarrow> firstEncounter ks a < length ks"
  unfolding firstEncounter_def by (induction ks) auto

lemma firstEncounter_new: "k \<notin> set ks \<Longrightarrow> firstEncounter (ks @ [k]) k = length ks"
proof -
  assume "k \<notin> set ks"
  then have "takeWhile (\<lambda>x. x \<noteq> k) (ks @ [k]) = ks @ takeWhile (\<lambda>x. x \<noteq> k) [k]"
    by (intro takeWhile_append2) auto
  then show ?thesis by (simp add: firstEncounter_def)
qed

lemma keys_tally_order:
  "sorted_wrt (\<lambda>a b. firstEncounter ks a < firstEncounter ks b) (map fst (foldl increment [] ks))"
proof (induction ks rule: rev_induct)
  case Nil
  then show ?case by simp
next
  case (snoc k ks)
  let ?keys = "map fst (foldl increment [] ks)"
  have mem: "a \<in> set ks" if "a \<in> set ?keys" for a
    using that by (simp only: keys_tally_set)
  have old: "sorted_wrt (\<lambda>a b. firstEncounter (ks @ [k]) a < firstEncounter (ks @ [k]) b) ?keys"
  proof (rule sorted_wrt_mono_rel [OF _ snoc.IH])
    fix a b
    assume "a \<in> set ?keys" "b \<in> set ?keys" "firstEncounter ks a < firstEncounter ks b"
    then show "firstEncounter (ks @ [k]) a < firstEncounter (ks @ [k]) b"
      by (simp only: firstEncounter_snoc [OF mem])
  qed
  have keys: "map fst (foldl increment [] (ks @ [k]))
              = (if k \<in> set ks then ?keys else ?keys @ [k])"
    by (simp only: tally_snoc keys_increment keys_tally_set)
  show ?case
  proof (cases "k \<in> set ks")
    case True
    with old show ?thesis by (simp only: keys if_True)
  next
    case False
    have "firstEncounter (ks @ [k]) a < firstEncounter (ks @ [k]) k" if "a \<in> set ?keys" for a
      using firstEncounter_less [OF mem [OF that]]
      by (simp only: firstEncounter_snoc [OF mem [OF that]] firstEncounter_new [OF False])
    with old False show ?thesis
      by (simp only: keys if_False sorted_wrt_append) simp
  qed
qed

section \<open>Sorting and the order of \<^verbatim>\<open>Object.entries\<close>\<close>

lemma insertBy_insort_key:
  "(\<And>x y. (cmp x y \<le> 0) = (f x \<le> f y)) \<Longrightarrow> insertBy cmp x ys = insort_key f x ys"
  by (induction ys) simp_all

lemma arraySort_sort_key:
  assumes "\<And>x y. (cmp x y \<le> 0) = (f x \<le> f y)"
  shows "arraySort cmp xs = sort_key f xs"
proof -
  have "insertBy cmp = insort_key f"
    by (intro ext) (rule insertBy_insort_key [OF assms])
  then show ?thesis by (simp add: arraySort_def sort_key_def)
qed

lemma sorted_wrt_insort_key:
  assumes "sorted_wrt R ys" "sorted (map f ys)"
    and "\<And>y. y \<in> set ys \<Longrightarrow> f y < f x \<Longrightarrow> R y x"
    and "\<And>y. y \<in> set ys \<Longrightarrow> f x \<le> f y \<Longrightarrow> R x y"
  shows "sorted_wrt R (insort_key f x ys)"
  using assms
proof (induction ys)
  case Nil
  then show ?case by simp
next
  case (Cons y ys)
  show ?case
  proof (cases "f x \<le> f y")
    case True
    have "R x z" if "z \<in> set (y # ys)" for z
    proof -
      from Cons.prems(2) that have "f y \<le> f z" by auto
      with True have "f x \<le> f z" by simp
      with that show ?thesis by (rule Cons.prems(4))
    qed
    with True Cons.prems(1) show ?thesis by simp
  next
    case False
    then have lt: "f y < f x" by simp
    have "sorted_wrt R (insort_key f x ys)"
      using Cons.prems by (intro Cons.IH) auto
    moreover have "R y z" if "z \<in> set (insort_key f x ys)" for z
      using that Cons.prems(1,3) lt by (auto simp: set_insort_key)
    ultimately show ?thesis using False by simp
  qed
qed

lemma sort_key_keeps_order_of_ties:
  "sorted_wrt Q es \<Longrightarrow>
     sorted_wrt (\<lambda>x y. f x < f y \<or> (f x = f y \<and> Q x y)) (sort_key f es)"
proof (induction es)
  case Nil
  then show ?case by simp
next
  case (Cons e es)
  from Cons.prems have q: "\<And>y. y \<in> set es \<Longrightarrow> Q e y" and rest: "sorted_wrt Q es" by simp_all
  have "sorted_wrt (\<lambda>x y. f x < f y \<or> (f x = f y \<and> Q x y)) (insort_key f e (sort_key f es))"
  proof (rule sorted_wrt_insort_key)
    show "sorted_wrt (\<lambda>x y. f x < f y \<or> (f x = f y \<and> Q x y)) (sort_key f es)"
      by (rule Cons.IH [OF rest])
    show "sorted (map f (sort_key f es))" by (rule sorted_sort_key)
  next
    fix y assume "y \<in> set (sort_key f es)" "f y < f e"
    then show "f y < f e \<or> (f y = f e \<and> Q y e)" by simp
  next
    fix y assume "y \<in> set (sort_key f es)" "f e \<le> f y"
    with q [of y] show "f e < f y \<or> (f e = f y \<and> Q e y)" by auto
  qed
  then show ?case by simp
qed

lemma number_showNat_index: "isArrayIndex k \<Longrightarrow> showNat (indexOf k) = k"
  by (auto simp: isArrayIndex_def indexOf_def split: option.splits)

lemma indexOf_inj: "isArrayIndex a \<Longrightarrow> isArrayIndex b \<Longrightarrow> indexOf a = indexOf b \<Longrightarrow> a = b"
  using number_showNat_index [of a] number_showNat_index [of b] by metis

lemma objectEntries_alt:
  "objectEntries obj
     = sort_key (\<lambda>e. indexOf (fst e)) (filter (\<lambda>e. isArrayIndex (fst e)) obj)
       @ filter (\<lambda>e. \<not> isArrayIndex (fst e)) obj"
  by (simp add: objectEntries_def split_def)

lemma set_objectEntries: "set (objectEntries obj) = set obj"
  by (auto simp: objectEntries_alt)

lemma length_objectEntries: "length (objectEntries obj) = length obj"
  using sum_length_filter_compl [of "\<lambda>e. isArrayIndex (fst e)" obj]
  by (simp add: objectEntries_alt)


lemma keys_objectEntries:
  "map fst (objectEntries obj)
     = map fst (sort_key (\<lambda>e. indexOf (fst e)) (filter (\<lambda>e. isArrayIndex (fst e)) obj))
       @ filter (\<lambda>k. \<not> isArrayIndex k) (map fst obj)"
  by (simp add: objectEntries_alt filter_map comp_def)

lemma objectEntries_order:
  assumes d: "distinct (map fst obj)" and q: "sorted_wrt Q (map fst obj)"
  shows "sorted_wrt (\<lambda>a b. if isArrayIndex a then (if isArrayIndex b then indexOf a < indexOf b else True)
                           else (if isArrayIndex b then False else Q a b))
           (map fst (objectEntries obj))"
proof -
  let ?E = "\<lambda>a b. if isArrayIndex a then (if isArrayIndex b then indexOf a < indexOf b else True)
                   else (if isArrayIndex b then False else Q a b)"
  let ?ix = "sort_key (\<lambda>e. indexOf (fst e)) (filter (\<lambda>e. isArrayIndex (fst e)) obj)"
  let ?rest = "filter (\<lambda>k. \<not> isArrayIndex k) (map fst obj)"
  have ixkeys: "isArrayIndex a" if "a \<in> set (map fst ?ix)" for a
    using that by auto
  have dix: "distinct (map fst ?ix)"
  proof -
    have "distinct (map fst (filter (\<lambda>e. isArrayIndex (fst e)) obj))"
      using d by (rule distinct_map_filter)
    then have "distinct (filter (\<lambda>e. isArrayIndex (fst e)) obj)
               \<and> inj_on fst (set (filter (\<lambda>e. isArrayIndex (fst e)) obj))"
      by (simp only: distinct_map)
    then show ?thesis by (simp add: distinct_map)
  qed
  have "sorted (map (\<lambda>e. indexOf (fst e)) ?ix)" by (rule sorted_sort_key)
  then have s1: "sorted (map indexOf (map fst ?ix))" by (simp add: comp_def)
  have "distinct (map indexOf (map fst ?ix))"
  proof (subst distinct_map, intro conjI inj_onI)
    show "distinct (map fst ?ix)" by (rule dix)
  next
    fix a b assume "a \<in> set (map fst ?ix)" "b \<in> set (map fst ?ix)" "indexOf a = indexOf b"
    then show "a = b" by (intro indexOf_inj ixkeys)
  qed
  with s1 have "sorted_wrt (<) (map indexOf (map fst ?ix))" by (simp only: strict_sorted_iff)
  then have "sorted_wrt (\<lambda>a b. indexOf a < indexOf b) (map fst ?ix)"
    by (simp only: sorted_wrt_map)
  then have p1: "sorted_wrt ?E (map fst ?ix)"
  proof (rule sorted_wrt_mono_rel [rotated])
    fix a b assume "a \<in> set (map fst ?ix)" "b \<in> set (map fst ?ix)"
      and lt: "indexOf a < indexOf b"
    then have "isArrayIndex a" "isArrayIndex b" by (simp_all only: ixkeys)
    with lt show "?E a b" by simp
  qed
  have "sorted_wrt Q ?rest" using q by (rule sorted_wrt_filter)
  then have p2: "sorted_wrt ?E ?rest"
    by (rule sorted_wrt_mono_rel [rotated]) simp
  have cross: "?E a b" if "a \<in> set (map fst ?ix)" "b \<in> set ?rest" for a b
  proof -
    have "isArrayIndex a" using that(1) by (rule ixkeys)
    moreover have "\<not> isArrayIndex b" using that(2) by simp
    ultimately show ?thesis by simp
  qed
  show ?thesis
    unfolding keys_objectEntries sorted_wrt_append
  proof (intro conjI ballI)
    show "sorted_wrt ?E (map fst ?ix)" by (rule p1)
    show "sorted_wrt ?E ?rest" by (rule p2)
  next
    fix a b assume "a \<in> set (map fst ?ix)" "b \<in> set ?rest"
    then show "?E a b" by (rule cross)
  qed
qed

section \<open>The most frequent prompts\<close>

lemma promptCounts_tally: "promptCounts fimgs = foldl increment [] (map promptKey fimgs)"
  by (simp add: promptCounts_def foldl_map)

lemma count_list_filter: "count_list (map f xs) k = length (filter (\<lambda>x. f x = k) xs)"
  by (induction xs) simp_all

lemma topPrompts_alt:
  "topPrompts fimgs =
     map (\<lambda>e. \<lparr>topPrompt = fst e, count = snd e\<rparr>)
       (take 10 (sort_key (\<lambda>e. - int (snd e)) (objectEntries (promptCounts fimgs))))"
proof -
  have "arraySort (\<lambda>(_, a) (_, b). int b - int a) es = sort_key (\<lambda>e. - int (snd e)) es"
    for es :: "(string \<times> nat) list"
    by (rule arraySort_sort_key) auto
  then show ?thesis by (simp add: topPrompts_def split_def)
qed

lemma topPrompts_sorted:
  "sorted_wrt (\<lambda>x y. count y < count x
                 \<or> (count x = count y
                    \<and> entriesOrder (map promptKey fimgs) (topPrompt x) (topPrompt y)))
     (topPrompts fimgs)"
proof -
  let ?ks = "map promptKey fimgs"
  let ?es = "objectEntries (promptCounts fimgs)"
  let ?f = "\<lambda>e :: string \<times> nat. - int (snd e)"
  have "sorted_wrt (entriesOrder ?ks) (map fst ?es)"
    unfolding entriesOrder_def promptCounts_tally
    by (rule objectEntries_order) (rule keys_tally_distinct, rule keys_tally_order)
  then have "sorted_wrt (\<lambda>x y. entriesOrder ?ks (fst x) (fst y)) ?es"
    by (simp only: sorted_wrt_map)
  then have "sorted_wrt (\<lambda>x y. ?f x < ?f y \<or> (?f x = ?f y \<and> entriesOrder ?ks (fst x) (fst y)))
               (sort_key ?f ?es)"
    by (rule sort_key_keeps_order_of_ties)
  then have "sorted_wrt (\<lambda>x y. ?f x < ?f y \<or> (?f x = ?f y \<and> entriesOrder ?ks (fst x) (fst y)))
               (take 10 (sort_key ?f ?es))"
    by (rule sorted_wrt_take)
  then show ?thesis
    unfolding topPrompts_alt sorted_wrt_map by (rule sorted_wrt_mono_rel [rotated]) auto
qed

lemma topPrompts_length:
  "length (topPrompts fimgs) = min 10 (card (promptKey ` set fimgs))"
  by (simp add: topPrompts_alt length_objectEntries promptCounts_tally length_tally min.commute)

lemma topPrompts_counts:
  assumes "e \<in> set (topPrompts fimgs)"
  shows "count e = length (filter (\<lambda>img. promptKey img = topPrompt e) fimgs)" "1 \<le> count e"
proof -
  from assms obtain p where p: "p \<in> set (objectEntries (promptCounts fimgs))"
    and e: "e = \<lparr>topPrompt = fst p, count = snd p\<rparr>"
    unfolding topPrompts_alt using in_set_takeD by fastforce
  from p have "(fst p, snd p) \<in> set (foldl increment [] (map promptKey fimgs))"
    by (simp add: set_objectEntries promptCounts_tally)
  from tally_entry(2,3) [OF this] e
  show "count e = length (filter (\<lambda>img. promptKey img = topPrompt e) fimgs)" "1 \<le> count e"
    by (simp_all add: count_list_filter)
qed

text \<open>
  C4, as amended. For images none of whose truncated prompts is a name inherited from
  \<^verbatim>\<open>Object.prototype\<close>, the list has \<open>min 10 n\<close> entries, \<open>n\<close> being the number of
  distinct truncated prompts (so at most 10, and fewer when fewer prompts exist); every
  entry carries the number of images with its prompt; the counts never increase along the
  list; and entries with equal counts stand in the order of \<^verbatim>\<open>Object.entries\<close>: array
  indices first, by their number, then the other prompts as first encountered. When no
  prompt is an array index, ties are therefore in first-encountered order.
\<close>

theorem C4_top_prompts_order:
  assumes "\<forall>img \<in> set fimgs. promptKey img \<notin> set objectPrototypeKeys"
  shows "length (topPrompts fimgs) = min 10 (card (promptKey ` set fimgs))
     \<and> (\<forall>e \<in> set (topPrompts fimgs).
           count e = length (filter (\<lambda>img. promptKey img = topPrompt e) fimgs) \<and> 1 \<le> count e)
     \<and> sorted_wrt (\<lambda>x y. count y \<le> count x) (topPrompts fimgs)
     \<and> sorted_wrt (\<lambda>x y. count y < count x
                       \<or> (count x = count y
                          \<and> entriesOrder (map promptKey fimgs) (topPrompt x) (topPrompt y)))
          (topPrompts fimgs)
     \<and> ((\<forall>img \<in> set fimgs. \<not> isArrayIndex (promptKey img)) \<longrightarrow>
          sorted_wrt (\<lambda>x y. count y < count x
                         \<or> (count x = count y
                            \<and> firstEncounter (map promptKey fimgs) (topPrompt x)
                                < firstEncounter (map promptKey fimgs) (topPrompt y)))
            (topPrompts fimgs))"
proof (intro conjI ballI impI)
  show "length (topPrompts fimgs) = min 10 (card (promptKey ` set fimgs))"
    by (rule topPrompts_length)
next
  fix e assume "e \<in> set (topPrompts fimgs)"
  then show "count e = length (filter (\<lambda>img. promptKey img = topPrompt e) fimgs)" "1 \<le> count e"
    by (rule topPrompts_counts)+
next
  show "sorted_wrt (\<lambda>x y. count y \<le> count x) (topPrompts fimgs)"
    by (rule sorted_wrt_mono_rel [OF _ topPrompts_sorted]) auto
next
  show "sorted_wrt (\<lambda>x y. count y < count x
                       \<or> (count x = count y
                          \<and> entriesOrder (map promptKey fimgs) (topPrompt x) (topPrompt y)))
          (topPrompts fimgs)"
    by (rule topPrompts_sorted)
next
  assume no: "\<forall>img \<in> set fimgs. \<not> isArrayIndex (promptKey img)"
  show "sorted_wrt (\<lambda>x y. count y < count x
                         \<or> (count x = count y
                            \<and> firstEncounter (map promptKey fimgs) (topPrompt x)
                                < firstEncounter (map promptKey fimgs) (topPrompt y)))
            (topPrompts fimgs)"
  proof (rule sorted_wrt_mono_rel [OF _ topPrompts_sorted])
    fix x y
    assume x: "x \<in> set (topPrompts fimgs)" and y: "y \<in> set (topPrompts fimgs)"
      and o: "count y < count x
              \<or> (count x = count y
                 \<and> entriesOrder (map promptKey fimgs) (topPrompt x) (topPrompt y))"
    have key: "\<not> isArrayIndex (topPrompt e)" if "e \<in> set (topPrompts fimgs)" for e
    proof -
      from topPrompts_counts [OF that]
      have "filter (\<lambda>img. promptKey img = topPrompt e) fimgs \<noteq> []" by auto
      then obtain img where "img \<in> set fimgs" "promptKey img = topPrompt e"
        by (auto simp: filter_empty_conv)
      with no show ?thesis by auto
    qed
    from o key [OF x] key [OF y]
    show "count y < count x
          \<or> (count x = count y
             \<and> firstEncounter (map promptKey fimgs) (topPrompt x)
                 < firstEncounter (map promptKey fimgs) (topPrompt y))"
      by (simp add: entriesOrder_def)
  qed
qed

theorem C4_top_prompts_witness:
  "length (topPrompts
     [\<lparr>imgId = ''i1'', userId = ''a'', url = ''u1'', prompt = ''a cat'',
        imgSize = ''1024x1024'', quality = ''hd'', createdAt = ''2024-01-01T10:00:00Z''\<rparr>,
      \<lparr>imgId = ''i2'', userId = ''b'', url = ''u2'', prompt = ''a dog'',
        imgSize = ''1024x1024'', quality = ''hd'', createdAt = ''2024-01-02T10:00:00Z''\<rparr>,
      \<lparr>imgId = ''i3'', userId = ''b'', url = ''u3'', prompt = ''a cat'',
        imgSize = ''1024x1024'', quality = ''hd'', createdAt = ''2024-01-03T10:00:00Z''\<rparr>]) = 2
   \<and> sorted_wrt (\<lambda>x y. count y \<le> count x) (topPrompts
     [\<lparr>imgId = ''i1'', userId = ''a'', url = ''u1'', prompt = ''a cat'',
        imgSize = ''1024x1024'', quality = ''hd'', createdAt = ''2024-01-01T10:00:00Z''\<rparr>,
      \<lparr>imgId = ''i2'', userId = ''b'', url = ''u2'', prompt = ''a dog'',
        imgSize = ''1024x1024'', quality = ''hd'', createdAt = ''2024-01-02T10:00:00Z''\<rparr>,
      \<lparr>imgId = ''i3'', userId = ''b'', url = ''u3'', prompt = ''a cat'',
        imgSize = ''1024x1024'', quality = ''hd'', createdAt = ''2024-01-03T10:00:00Z''\<rparr>])"
proof -
  let ?imgs = "[\<lparr>imgId = ''i1'', userId = ''a'', url = ''u1'', prompt = ''a cat'',
        imgSize = ''1024x1024'', quality = ''hd'', createdAt = ''2024-01-01T10:00:00Z''\<rparr>,
      \<lparr>imgId = ''i2'', userId = ''b'', url = ''u2'', prompt = ''a dog'',
        imgSize = ''1024x1024'', quality = ''hd'', createdAt = ''2024-01-02T10:00:00Z''\<rparr>,
      \<lparr>imgId = ''i3'', userId = ''b'', url = ''u3'', prompt = ''a cat'',
        imgSize = ''1024x1024'', quality = ''hd'', createdAt = ''2024-01-03T10:00:00Z''\<rparr>]"
  have h: "\<forall>img \<in> set ?imgs. promptKey img \<notin> set objectPrototypeKeys"
    by (simp add: promptKey_def objectPrototypeKeys_def)
  have c: "card (promptKey ` set ?imgs) = 2"
    by (simp add: promptKey_def card_insert_if)
  from C4_top_prompts_order [OF h] c show ?thesis by simp
qed

text \<open>
  The claim as written breaks ties in first-encountered order. Two images with the
  prompts \<^verbatim>\<open>7\<close> and \<^verbatim>\<open>3\<close>, in this order, each counted once, come out as
  \<^verbatim>\<open>3\<close> before \<^verbatim>\<open>7\<close>: both prompts are array indices, which
  \<^verbatim>\<open>Object.entries\<close> lists in numeric order.
\<close>

theorem C4_tie_order_counterexample:
  "map promptKey
     [\<lparr>imgId = ''i1'', userId = ''a'', url = ''u1'', prompt = ''7'',
        imgSize = ''1024x1024'', quality = ''hd'', createdAt = ''2024-01-01T10:00:00Z''\<rparr>,
      \<lparr>imgId = ''i2'', userId = ''b'', url = ''u2'', prompt = ''3'',
        imgSize = ''1024x1024'', quality = ''hd'', createdAt = ''2024-01-02T10:00:00Z''\<rparr>]
     = [''7'', ''3'']
   \<and> topPrompts
     [\<lparr>imgId = ''i1'', userId = ''a'', url = ''u1'', prompt = ''7'',
        imgSize = ''1024x1024'', quality = ''hd'', createdAt = ''2024-01-01T10:00:00Z''\<rparr>,
      \<lparr>imgId = ''i2'', userId = ''b'', url = ''u2'', prompt = ''3'',
        imgSize = ''1024x1024'', quality = ''hd'', createdAt = ''2024-01-02T10:00:00Z''\<rparr>]
     = [\<lparr>topPrompt = ''3'', count = 1\<rparr>, \<lparr>topPrompt = ''7'', count = 1\<rparr>]"
  by code_simp

section \<open>Users per month\<close>

lemma error_is_RangeError: "e = RangeError" for e :: error
  by (cases e) simp

lemma monthlyUsersFrom_ok:
  "(\<And>u. u \<in> set usrs \<Longrightarrow> userMonth parse now u = Inr (key u)) \<Longrightarrow>
     monthlyUsersFrom parse now acc usrs = Inr (foldl increment acc (map key usrs))"
  by (induction usrs arbitrary: acc) simp_all

lemma monthlyUsersFrom_throws:
  "u \<in> set usrs \<Longrightarrow> userMonth parse now u = Inl e \<Longrightarrow>
     monthlyUsersFrom parse now acc usrs = Inl RangeError"
proof (induction usrs arbitrary: acc)
  case Nil
  then show ?case by simp
next
  case (Cons a usrs)
  show ?case
  proof (cases "userMonth parse now a")
    case (Inl e')
    then show ?thesis by (simp add: error_is_RangeError [of e'])
  next
    case (Inr m)
    with Cons.prems have "u \<in> set usrs" by auto
    from Cons.IH [OF this Cons.prems(2)] Inr show ?thesis by simp
  qed
qed

lemma length_dateText: "10 \<le> length (dateText d)"
  by (simp add: dateText_def length_yearText length_fixedDigits split: prod.splits)

lemma userMonth_Some:
  "userDate parse now u = Some t \<Longrightarrow> userMonth parse now u = Inr (take 7 (dateText (day t)))"
  using length_dateText [of "day t"] by (simp add: userMonth_def)

lemma userMonth_None: "userDate parse now u = None \<Longrightarrow> userMonth parse now u = Inl RangeError"
  by (simp add: userMonth_def)













lemma monthlyUsers_Inr:
  assumes "monthlyUsers parse now usrs = Inr mu"
  shows "\<forall>u \<in> set usrs. userMonth parse now u = Inr (projr (userMonth parse now u))"
    and "mu = foldl increment [] (map (\<lambda>u. projr (userMonth parse now u)) usrs)"
proof -
  show all: "\<forall>u \<in> set usrs. userMonth parse now u = Inr (projr (userMonth parse now u))"
  proof
    fix u assume u: "u \<in> set usrs"
    show "userMonth parse now u = Inr (projr (userMonth parse now u))"
    proof (cases "userMonth parse now u")
      case (Inl e)
      from monthlyUsersFrom_throws [OF u Inl] assms show ?thesis
        by (simp add: monthlyUsers_def)
    next
      case (Inr k)
      then show ?thesis by simp
    qed
  qed
  then have "monthlyUsersFrom parse now [] usrs
             = Inr (foldl increment [] (map (\<lambda>u. projr (userMonth parse now u)) usrs))"
    by (intro monthlyUsersFrom_ok) simp
  with assms show "mu = foldl increment [] (map (\<lambda>u. projr (userMonth parse now u)) usrs)"
    by (simp add: monthlyUsers_def)
qed



lemma month_count:
  assumes "\<forall>u \<in> set usrs. userMonth parse now u = Inr (projr (userMonth parse now u))"
  shows "count_list (map (\<lambda>u. projr (userMonth parse now u)) usrs) k
           = length (filter (\<lambda>u. userMonth parse now u = Inr k) usrs)"
proof -
  have "filter (\<lambda>u. projr (userMonth parse now u) = k) usrs
        = filter (\<lambda>u. userMonth parse now u = Inr k) usrs"
  proof (rule filter_cong [OF refl])
    fix u assume "u \<in> set usrs"
    with assms have "userMonth parse now u = Inr (projr (userMonth parse now u))" by blast
    then show "(projr (userMonth parse now u) = k) = (userMonth parse now u = Inr k)"
      by (metis sum.sel(2))
  qed
  then show ?thesis by (simp add: count_list_filter)
qed










section \<open>Records without a parseable timestamp\<close>

lemma filteredImages_drop_unparseable:
  "newDate parse (createdAt img) = None \<Longrightarrow>
     filteredImages parse now daysBack (xs @ img # ys) = filteredImages parse now daysBack (xs @ ys)"
  by (simp add: filteredImages_def)

text \<open>
  C2, as amended. An image whose \<^verbatim>\<open>createdAt\<close> does not parse is not in the filtered
  images; the filtered images, the daily statistics and the top prompts are those of the
  collection without it, so nothing is thrown because of it. For the users the code does
  something else by design: a user whose \<^verbatim>\<open>createdAt\<close> is missing or empty is not left
  out but counted in the month of the clock.
\<close>

theorem C2_records_without_timestamp:
  "(newDate parse (createdAt img) = None \<longrightarrow>
       img \<notin> set (filteredImages parse now daysBack imgs)
       \<and> filteredImages parse now daysBack (xs @ img # ys)
           = filteredImages parse now daysBack (xs @ ys)
       \<and> dailyStats now daysBack (filteredImages parse now daysBack (xs @ img # ys))
           = dailyStats now daysBack (filteredImages parse now daysBack (xs @ ys))
       \<and> topPrompts (filteredImages parse now daysBack (xs @ img # ys))
           = topPrompts (filteredImages parse now daysBack (xs @ ys)))
   \<and> (u \<in> set usrs \<and> (dbCreatedAt u = None \<or> dbCreatedAt u = Some [])
        \<and> monthlyUsers parse now usrs = Inr mu \<longrightarrow>
       userMonth parse now u = Inr (take 7 (dateText (day now)))
       \<and> map_of mu (take 7 (dateText (day now)))
           = Some (length (filter (\<lambda>v. userMonth parse now v
                                         = Inr (take 7 (dateText (day now)))) usrs))
       \<and> 1 \<le> length (filter (\<lambda>v. userMonth parse now v
                                     = Inr (take 7 (dateText (day now)))) usrs))"
proof (intro conjI impI)
  assume n: "newDate parse (createdAt img) = None"
  then show "img \<notin> set (filteredImages parse now daysBack imgs)"
    by (simp add: filteredImages_def)
  from n show eq: "filteredImages parse now daysBack (xs @ img # ys)
           = filteredImages parse now daysBack (xs @ ys)"
    by (rule filteredImages_drop_unparseable)
  show "dailyStats now daysBack (filteredImages parse now daysBack (xs @ img # ys))
           = dailyStats now daysBack (filteredImages parse now daysBack (xs @ ys))"
    by (simp only: eq)
  show "topPrompts (filteredImages parse now daysBack (xs @ img # ys))
           = topPrompts (filteredImages parse now daysBack (xs @ ys))"
    by (simp only: eq)
next
  let ?k = "take 7 (dateText (day now))"
  assume a: "u \<in> set usrs \<and> (dbCreatedAt u = None \<or> dbCreatedAt u = Some [])
        \<and> monthlyUsers parse now usrs = Inr mu"
  then have u: "u \<in> set usrs" and mu: "monthlyUsers parse now usrs = Inr mu" by simp_all
  note ok = monthlyUsers_Inr [OF mu]
  from a have d: "userDate parse now u = timeClip now" by (auto simp: userDate_def)
  have "timeClip now \<noteq> None"
  proof
    assume "timeClip now = None"
    with d have "userMonth parse now u = Inl RangeError" by (simp add: userMonth_None)
    with ok(1) u show False by auto
  qed
  then have "timeClip now = Some now" by (simp add: timeClip_def split: if_splits)
  with d show m: "userMonth parse now u = Inr ?k" by (simp add: userMonth_Some)
  from u m have mem: "?k \<in> set (map (\<lambda>u. projr (userMonth parse now u)) usrs)" by force
  show "map_of mu ?k = Some (length (filter (\<lambda>v. userMonth parse now v = Inr ?k) usrs))"
    unfolding ok(2) map_of_tally using mem by (simp only: month_count [OF ok(1)] if_True)
  from u m have "filter (\<lambda>v. userMonth parse now v = Inr ?k) usrs \<noteq> []"
    by (auto simp: filter_empty_conv)
  then show "1 \<le> length (filter (\<lambda>v. userMonth parse now v = Inr ?k) usrs)"
    by (cases "filter (\<lambda>v. userMonth parse now v = Inr ?k) usrs") simp_all
qed

theorem C2_records_without_timestamp_witness:
  "filteredImages isoParse 1704283200000 7
     [\<lparr>imgId = ''i1'', userId = ''a'', url = ''u1'', prompt = ''a cat'',
        imgSize = ''1024x1024'', quality = ''hd'', createdAt = ''2024-01-01T10:00:00Z''\<rparr>,
      \<lparr>imgId = ''i2'', userId = ''b'', url = ''u2'', prompt = ''a dog'',
        imgSize = ''1024x1024'', quality = ''hd'', createdAt = ''not-a-date''\<rparr>]
   = filteredImages isoParse 1704283200000 7
     [\<lparr>imgId = ''i1'', userId = ''a'', url = ''u1'', prompt = ''a cat'',
        imgSize = ''1024x1024'', quality = ''hd'', createdAt = ''2024-01-01T10:00:00Z''\<rparr>]
   \<and> userMonth isoParse 1704283200000
       \<lparr>dbId = ''u1'', dbEmail = ''a@example.com'', dbDisplayName = None, dbRole = None,
         dbCreatedAt = None\<rparr> = Inr (take 7 (dateText (day 1704283200000)))"
proof -
  have p: "isoParse ''not-a-date'' = None" by code_simp
  have n: "newDate isoParse (createdAt
      \<lparr>imgId = ''i2'', userId = ''b'', url = ''u2'', prompt = ''a dog'',
        imgSize = ''1024x1024'', quality = ''hd'', createdAt = ''not-a-date''\<rparr>) = None"
    by (simp add: newDate_def p)
  have m: "monthlyUsers isoParse 1704283200000
       [\<lparr>dbId = ''u1'', dbEmail = ''a@example.com'', dbDisplayName = None, dbRole = None,
         dbCreatedAt = None\<rparr>] = Inr [(''2024-01'', 1)]"
    by (simp add: monthlyUsers_def userMonth_def userDate_def timeClip_def day_example
        dateText_2024_01_03 increment_def setProperty_def)
  from C2_records_without_timestamp
    [of isoParse _ 1704283200000 7 "[]"
        "[\<lparr>imgId = ''i1'', userId = ''a'', url = ''u1'', prompt = ''a cat'',
            imgSize = ''1024x1024'', quality = ''hd'', createdAt = ''2024-01-01T10:00:00Z''\<rparr>]"
        "[]"
        "\<lparr>dbId = ''u1'', dbEmail = ''a@example.com'', dbDisplayName = None, dbRole = None,
          dbCreatedAt = None\<rparr>"
        "[\<lparr>dbId = ''u1'', dbEmail = ''a@example.com'', dbDisplayName = None, dbRole = None,
          dbCreatedAt = None\<rparr>]"
        "[(''2024-01'', 1)]"] n m
  show ?thesis by simp
qed

text \<open>
  The claim as written also covers the users. A user whose \<^verbatim>\<open>createdAt\<close> is the
  text \<^verbatim>\<open>not-a-date\<close> makes \<^verbatim>\<open>toISOString\<close> throw a RangeError, so the reduction
  over the users ends with an exception instead of leaving the user out; and a user
  without \<^verbatim>\<open>createdAt\<close> is counted (here under 2024-01, the month of the clock) instead
  of being left out.
\<close>

theorem C2_users_counterexample:
  "isoParse ''not-a-date'' = None
   \<and> monthlyUsers isoParse 1704283200000
       [\<lparr>dbId = ''u1'', dbEmail = ''a@example.com'', dbDisplayName = None, dbRole = None,
         dbCreatedAt = Some ''not-a-date''\<rparr>] = Inl RangeError
   \<and> monthlyUsers isoParse 1704283200000
       [\<lparr>dbId = ''u2'', dbEmail = ''b@example.com'', dbDisplayName = None, dbRole = None,
         dbCreatedAt = None\<rparr>] = Inr [(''2024-01'', 1)]"
proof -
  have p: "isoParse ''not-a-date'' = None" by code_simp
  show ?thesis
    by (simp add: p monthlyUsers_def userMonth_def userDate_def newDate_def timeClip_def
        day_example dateText_2024_01_03 increment_def setProperty_def)
qed

end
